theory Spec2Isabelle
  imports Complex_Main "HOL-Library.Word"
begin

section \<open>Data model\<close>

text \<open>
  The spline engine of \<^verbatim>\<open>catmull_rom_spline.cpp\<close>, modelled twice.

  In the first model a \<^verbatim>\<open>double\<close> is a \<^typ>\<open>real\<close>: the arithmetic is exact, and rounding,
  infinities and NaN are outside it. It carries what does not depend on them: the
  construction, the branches of the resolution of an arc length, the collisions, and the
  number of points of a trajectory of unit resolution.

  In the second model, from the section on double precision on, a \<^verbatim>\<open>double\<close> is a NaN, an
  infinity or a number, and every operation rounds to the nearest double. It carries what
  rounding or NaN decides: the round trip of the resolution, the failure branch of the
  resolution, the termination of a trajectory, and the bounds. There the caller-supplied
  \<^verbatim>\<open>num_points\<close>, on which the source computes \<^verbatim>\<open>num_points + 1\<close>, is a \<^typ>\<open>64 word\<close>.

  In both, a \<^verbatim>\<open>size_t\<close> that indexes a vector is a \<^typ>\<open>nat\<close> (it is bounded by the size of
  the vector). An exception is the \<open>Inl\<close> side of a sum, and so is a read of a vector outside
  its range (undefined behaviour in C++). The two macros that throw build the message from
  their arguments; \<open>SimulationErrorAt\<close> is the error whose message has a number between two
  strings. The members of the source end in an underscore, which the name of a constant
  cannot: \<^verbatim>\<open>curves_\<close> is \<open>curves\<close> here, and so on.
\<close>

record Point =
  p_x :: real
  p_y :: real
  p_z :: real

record Vector3 =
  v_x :: real
  v_y :: real
  v_z :: real

text \<open>
  Modelled from the spec: the class HermiteCurve (its header and source are absent), which
  owns 12 scalar coefficients, 4 per axis: cubic, quadratic, linear and constant term.
  The constructor call in the source gives their order.
\<close>

record HermiteCurve =
  a_x :: real
  b_x :: real
  c_x :: real
  d_x :: real
  a_y :: real
  b_y :: real
  c_y :: real
  d_y :: real
  a_z :: real
  b_z :: real
  c_z :: real
  d_z :: real

text \<open>
  Modelled from the spec: the class LineSegment (absent), a 2-endpoint primitive.
\<close>

record LineSegment =
  start_point :: Point
  end_point :: Point

datatype error =
  SemanticError string
  | SimulationError string
  | SimulationErrorAt string nat string
  | OutOfRange

text \<open>
  The operations of HermiteCurve and LineSegment that the spline calls are not part of the
  source at hand. They are parameters of the model: every function below takes them as a
  record, and every theorem holds for each value of that record.
\<close>

record Geometry =
  getLineSegments :: "Point list \<Rightarrow> LineSegment list"
  LineSegment_getIntersection2DSValue :: "LineSegment \<Rightarrow> LineSegment \<Rightarrow> real option"
  HermiteCurve_getLength :: "HermiteCurve \<Rightarrow> real"
  HermiteCurve_getMaximum2DCurvature :: "HermiteCurve \<Rightarrow> real"
  HermiteCurve_getPoint :: "HermiteCurve \<Rightarrow> real \<Rightarrow> bool \<Rightarrow> Point"
  HermiteCurve_getNormalVector :: "HermiteCurve \<Rightarrow> real \<Rightarrow> bool \<Rightarrow> Vector3"
  HermiteCurve_getCollisionPointIn2D_polygon :: "HermiteCurve \<Rightarrow> Point list \<Rightarrow> bool \<Rightarrow> real option"
  HermiteCurve_getCollisionPointIn2D_points :: "HermiteCurve \<Rightarrow> Point \<Rightarrow> Point \<Rightarrow> bool \<Rightarrow> real option"

record CatmullRomSpline =
  control_points :: "Point list"
  line_segments :: "LineSegment list"
  curves :: "HermiteCurve list"
  length_list :: "real list"
  maximum_2d_curvatures :: "real list"
  total_length :: real

section \<open>Construction\<close>

text \<open>\<^verbatim>\<open>std::numeric_limits<float>::epsilon()\<close>, that is \<open>2\<^sup>-\<^sup>2\<^sup>3\<close>.\<close>

definition float_epsilon :: real where
  "float_epsilon = 1 / 2 ^ 23"

definition equals :: "Point \<Rightarrow> Point \<Rightarrow> bool" where
  "equals p0 p1 =
     (let e = float_epsilon in
      if \<bar>p_x p0 - p_x p1\<bar> > e then False
      else if \<bar>p_y p0 - p_y p1\<bar> > e then False
      else if \<bar>p_z p0 - p_z p1\<bar> > e then False
      else True)"

text \<open>The three branches of the constructor's loop: \<open>i = 0\<close>, \<open>i = n - 1\<close>, and the rest.\<close>

definition first_curve :: "Point list \<Rightarrow> HermiteCurve" where
  "first_curve cp =
     \<lparr>a_x = 0 * 0.5,
      b_x = (p_x (cp ! 0) - 2 * p_x (cp ! 1) + p_x (cp ! 2)) * 0.5,
      c_x = (-3 * p_x (cp ! 0) + 4 * p_x (cp ! 1) - p_x (cp ! 2)) * 0.5,
      d_x = (2 * p_x (cp ! 0)) * 0.5,
      a_y = 0 * 0.5,
      b_y = (p_y (cp ! 0) - 2 * p_y (cp ! 1) + p_y (cp ! 2)) * 0.5,
      c_y = (-3 * p_y (cp ! 0) + 4 * p_y (cp ! 1) - p_y (cp ! 2)) * 0.5,
      d_y = (2 * p_y (cp ! 0)) * 0.5,
      a_z = 0 * 0.5,
      b_z = (p_z (cp ! 0) - 2 * p_z (cp ! 1) + p_z (cp ! 2)) * 0.5,
      c_z = (-3 * p_z (cp ! 0) + 4 * p_z (cp ! 1) - p_z (cp ! 2)) * 0.5,
      d_z = (2 * p_z (cp ! 0)) * 0.5\<rparr>"

definition last_curve :: "Point list \<Rightarrow> nat \<Rightarrow> HermiteCurve" where
  "last_curve cp i =
     \<lparr>a_x = 0 * 0.5,
      b_x = (p_x (cp ! (i - 1)) - 2 * p_x (cp ! i) + p_x (cp ! (i + 1))) * 0.5,
      c_x = (-1 * p_x (cp ! (i - 1)) + p_x (cp ! (i + 1))) * 0.5,
      d_x = (2 * p_x (cp ! i)) * 0.5,
      a_y = 0 * 0.5,
      b_y = (p_y (cp ! (i - 1)) - 2 * p_y (cp ! i) + p_y (cp ! (i + 1))) * 0.5,
      c_y = (-1 * p_y (cp ! (i - 1)) + p_y (cp ! (i + 1))) * 0.5,
      d_y = (2 * p_y (cp ! i)) * 0.5,
      a_z = 0 * 0.5,
      b_z = (p_z (cp ! (i - 1)) - 2 * p_z (cp ! i) + p_z (cp ! (i + 1))) * 0.5,
      c_z = (-1 * p_z (cp ! (i - 1)) + p_z (cp ! (i + 1))) * 0.5,
      d_z = (2 * p_z (cp ! i)) * 0.5\<rparr>"

definition middle_curve :: "Point list \<Rightarrow> nat \<Rightarrow> HermiteCurve" where
  "middle_curve cp i =
     \<lparr>a_x = (-1 * p_x (cp ! (i - 1)) + 3 * p_x (cp ! i)
              - 3 * p_x (cp ! (i + 1)) + p_x (cp ! (i + 2))) * 0.5,
      b_x = (2 * p_x (cp ! (i - 1)) - 5 * p_x (cp ! i)
              + 4 * p_x (cp ! (i + 1)) - p_x (cp ! (i + 2))) * 0.5,
      c_x = (- p_x (cp ! (i - 1)) + p_x (cp ! (i + 1))) * 0.5,
      d_x = (2 * p_x (cp ! i)) * 0.5,
      a_y = (-1 * p_y (cp ! (i - 1)) + 3 * p_y (cp ! i)
              - 3 * p_y (cp ! (i + 1)) + p_y (cp ! (i + 2))) * 0.5,
      b_y = (2 * p_y (cp ! (i - 1)) - 5 * p_y (cp ! i)
              + 4 * p_y (cp ! (i + 1)) - p_y (cp ! (i + 2))) * 0.5,
      c_y = (- p_y (cp ! (i - 1)) + p_y (cp ! (i + 1))) * 0.5,
      d_y = (2 * p_y (cp ! i)) * 0.5,
      a_z = (-1 * p_z (cp ! (i - 1)) + 3 * p_z (cp ! i)
              - 3 * p_z (cp ! (i + 1)) + p_z (cp ! (i + 2))) * 0.5,
      b_z = (2 * p_z (cp ! (i - 1)) - 5 * p_z (cp ! i)
              + 4 * p_z (cp ! (i + 1)) - p_z (cp ! (i + 2))) * 0.5,
      c_z = (- p_z (cp ! (i - 1)) + p_z (cp ! (i + 1))) * 0.5,
      d_z = (2 * p_z (cp ! i)) * 0.5\<rparr>"

definition make_curve :: "Point list \<Rightarrow> nat \<Rightarrow> nat \<Rightarrow> HermiteCurve" where
  "make_curve cp n i =
     (if i = 0 then first_curve cp
      else if i = n - 1 then last_curve cp i
      else middle_curve cp i)"

text \<open>
  \<^verbatim>\<open>checkConnection\<close>: the loop over the curves, then the function. Inside the loop the
  size check has passed, so \<^verbatim>\<open>control_points[i + 1]\<close> is in range.
\<close>

fun checkConnection_loop ::
  "Geometry \<Rightarrow> Point list \<Rightarrow> HermiteCurve list \<Rightarrow> nat list \<Rightarrow> error option" where
  "checkConnection_loop g cps cs [] = None"
| "checkConnection_loop g cps cs (i # is) =
     (let control_point0 = cps ! i;
          control_point1 = cps ! (i + 1);
          p0 = HermiteCurve_getPoint g (cs ! i) 0 False;
          p1 = HermiteCurve_getPoint g (cs ! i) 1 False
      in if equals control_point0 p0 \<and> equals control_point1 p1
           then checkConnection_loop g cps cs is
         else if \<not> equals control_point0 p0
           then Some (SimulationErrorAt ''start point of the curve number '' i '' does not match'')
         else if \<not> equals control_point1 p1
           then Some (SimulationErrorAt ''end point of the curve number '' i '' does not match'')
         else checkConnection_loop g cps cs is)"

definition checkConnection :: "Geometry \<Rightarrow> CatmullRomSpline \<Rightarrow> error + bool" where
  "checkConnection g sp =
     (if length (control_points sp) \<noteq> length (curves sp) + 1
        then Inl (SimulationError ''number of control points and curves does not match.'')
      else
        (case checkConnection_loop g (control_points sp) (curves sp)
                [0 ..< length (curves sp)] of
           Some e \<Rightarrow> Inl e
         | None \<Rightarrow>
             if curves sp = []
               then Inl (SimulationError ''curve size should not be zero'')
             else Inr True))"

text \<open>
  The constructor. The member \<^verbatim>\<open>total_length_\<close> is assigned in the default branch only;
  \<open>uninit\<close> stands for the value it holds otherwise.
\<close>

definition CatmullRomSpline :: "Geometry \<Rightarrow> real \<Rightarrow> Point list \<Rightarrow> error + CatmullRomSpline" where
  "CatmullRomSpline g uninit cps =
     (let sp0 = \<lparr>control_points = cps, line_segments = getLineSegments g cps,
                 curves = [], length_list = [], maximum_2d_curvatures = [],
                 total_length = uninit\<rparr>
      in if length cps = 0
           then Inl (SemanticError
             ''Control points are empty. We cannot determine the shape of the curve.'')
         else if length cps = 1 then Inr sp0
         else if length cps = 2 then Inr sp0
         else
           (let n = length cps - 1;
                cs = map (make_curve cps n) [0 ..< n];
                sp = sp0\<lparr>curves := cs,
                         length_list := map (HermiteCurve_getLength g) cs,
                         maximum_2d_curvatures :=
                           map (HermiteCurve_getMaximum2DCurvature g) cs,
                         total_length :=
                           foldl (\<lambda>total len. total + len) 0
                             (map (HermiteCurve_getLength g) cs)\<rparr>
            in case checkConnection g sp of
                 Inl e \<Rightarrow> Inl e
               | Inr ok \<Rightarrow> Inr sp))"


section \<open>Arc-length resolution and its inverse\<close>



function getSInSplineCurve_loop ::
  "Geometry \<Rightarrow> CatmullRomSpline \<Rightarrow> nat \<Rightarrow> real \<Rightarrow> nat \<Rightarrow> real \<Rightarrow> error + real" where
  "getSInSplineCurve_loop g sp curve_index s i ret =
     (if i < length (curves sp) then
        (if i = curve_index then Inr (ret + s)
         else getSInSplineCurve_loop g sp curve_index s (i + 1)
                (ret + HermiteCurve_getLength g (curves sp ! i)))
      else Inl (SemanticError ''curve index does not match''))"
  by pat_completeness auto
termination
  by (relation "measure (\<lambda>(g, sp, k, s, i, r). length (curves sp) - i)") auto

definition getSInSplineCurve ::
  "Geometry \<Rightarrow> CatmullRomSpline \<Rightarrow> nat \<Rightarrow> real \<Rightarrow> error + real" where
  "getSInSplineCurve g sp curve_index s = getSInSplineCurve_loop g sp curve_index s 0 0"

section \<open>Point queries\<close>



text \<open>
  \<^verbatim>\<open>std::atan2\<close> on reals: the angle of the point \<open>(x, y)\<close> in \<open>(-\<pi>, \<pi>]\<close>, and 0 at the
  origin.
\<close>

definition atan2 :: "real \<Rightarrow> real \<Rightarrow> real" where
  "atan2 y x =
     (if x > 0 then arctan (y / x)
      else if x < 0 \<and> y \<ge> 0 then arctan (y / x) + pi
      else if x < 0 \<and> y < 0 then arctan (y / x) - pi
      else if y > 0 then pi / 2
      else if y < 0 then - pi / 2
      else 0)"


section \<open>Trajectory\<close>





section \<open>Collision\<close>

text \<open>
  The forward and the backward scan over the curves. The source writes them twice, once for
  a polygon and once for two points; \<open>hit\<close> is the query on one curve.
\<close>

function collision_scan_forward ::
  "Geometry \<Rightarrow> CatmullRomSpline \<Rightarrow> (HermiteCurve \<Rightarrow> real option) \<Rightarrow> nat
     \<Rightarrow> error + real option" where
  "collision_scan_forward g sp hit i =
     (if i < length (curves sp) then
        (case hit (curves sp ! i) of
           Some s \<Rightarrow>
             (case getSInSplineCurve g sp i s of Inl e \<Rightarrow> Inl e | Inr v \<Rightarrow> Inr (Some v))
         | None \<Rightarrow> collision_scan_forward g sp hit (i + 1))
      else Inr None)"
  by pat_completeness auto
termination
  by (relation "measure (\<lambda>(g, sp, hit, i). length (curves sp) - i)") auto

function collision_scan_backward ::
  "Geometry \<Rightarrow> CatmullRomSpline \<Rightarrow> (HermiteCurve \<Rightarrow> real option) \<Rightarrow> nat
     \<Rightarrow> error + real option" where
  "collision_scan_backward g sp hit i =
     (let n = length (curves sp) in
      if i < n then
        (case hit (curves sp ! (n - 1 - i)) of
           Some s \<Rightarrow>
             (case getSInSplineCurve g sp (n - 1 - i) s of
                Inl e \<Rightarrow> Inl e
              | Inr v \<Rightarrow> Inr (Some v))
         | None \<Rightarrow> collision_scan_backward g sp hit (i + 1))
      else Inr None)"
  by pat_completeness auto
termination
  by (relation "measure (\<lambda>(g, sp, hit, i). length (curves sp) - i)") auto

text \<open>
  \<^verbatim>\<open>*std::max_element\<close> and \<^verbatim>\<open>*std::min_element\<close> on the non-empty range \<open>v # vs\<close>: the
  scan keeps the first of the greatest (smallest) elements.
\<close>

definition max_element :: "real \<Rightarrow> real list \<Rightarrow> real" where
  "max_element v vs = foldl (\<lambda>largest c. if largest < c then c else largest) v vs"

definition min_element :: "real \<Rightarrow> real list \<Rightarrow> real" where
  "min_element v vs = foldl (\<lambda>smallest c. if c < smallest then c else smallest) v vs"

definition get_collision_point_2d_with_curve ::
  "Geometry \<Rightarrow> CatmullRomSpline \<Rightarrow> Point list \<Rightarrow> bool \<Rightarrow> error + real option" where
  "get_collision_point_2d_with_curve g sp polygon search_backward =
     (if search_backward then
        collision_scan_backward g sp
          (\<lambda>c. HermiteCurve_getCollisionPointIn2D_polygon g c polygon search_backward) 0
      else
        collision_scan_forward g sp
          (\<lambda>c. HermiteCurve_getCollisionPointIn2D_polygon g c polygon search_backward) 0)"

text \<open>
  The loop body reads \<^verbatim>\<open>line_segments_[0]\<close>, so the read happens when the polygon has a line
  segment at all.
\<close>

definition get_collision_point_2d_with_line ::
  "Geometry \<Rightarrow> CatmullRomSpline \<Rightarrow> Point list \<Rightarrow> bool \<Rightarrow> error + real option" where
  "get_collision_point_2d_with_line g sp polygon search_backward =
     (let polygon_lines = getLineSegments g polygon in
      if polygon_lines \<noteq> [] \<and> line_segments sp = [] then Inl OutOfRange
      else
        (let s_value_candidates =
               List.map_filter
                 (\<lambda>line. LineSegment_getIntersection2DSValue g (line_segments sp ! 0) line)
                 polygon_lines
         in case s_value_candidates of
              [] \<Rightarrow> Inr None
            | v # vs \<Rightarrow>
                Inr (Some (if search_backward then max_element v vs else min_element v vs))))"

definition get_collision_point_2d_with_point ::
  "Geometry \<Rightarrow> CatmullRomSpline \<Rightarrow> Point list \<Rightarrow> bool \<Rightarrow> error + real option" where
  "get_collision_point_2d_with_point g sp polygon search_backward = Inr None"

definition getCollisionPointIn2D_polygon ::
  "Geometry \<Rightarrow> CatmullRomSpline \<Rightarrow> Point list \<Rightarrow> bool \<Rightarrow> error + real option" where
  "getCollisionPointIn2D_polygon g sp polygon search_backward =
     (if length (control_points sp) = 0
        then Inl (SemanticError
          ''Control points are empty. We cannot determine the shape of the curve.'')
      else if length (control_points sp) = 1
        then get_collision_point_2d_with_point g sp polygon search_backward
      else if length (control_points sp) = 2
        then get_collision_point_2d_with_line g sp polygon search_backward
      else get_collision_point_2d_with_curve g sp polygon search_backward)"

definition getCollisionPointIn2D_points ::
  "Geometry \<Rightarrow> CatmullRomSpline \<Rightarrow> Point \<Rightarrow> Point \<Rightarrow> bool \<Rightarrow> error + real option" where
  "getCollisionPointIn2D_points g sp point0 point1 search_backward =
     (if search_backward then
        collision_scan_backward g sp
          (\<lambda>c. HermiteCurve_getCollisionPointIn2D_points g c point0 point1 search_backward) 0
      else
        collision_scan_forward g sp
          (\<lambda>c. HermiteCurve_getCollisionPointIn2D_points g c point0 point1 search_backward) 0)"

section \<open>An instance of the absent operations\<close>

text \<open>
  One value of the record of operations, on which the functions above can be run. A curve
  is evaluated as the spec says (the per-axis cubic at the parameter, its derivative turned
  by a quarter for the normal); its length is the length of its chord and its collisions are
  those of its chord, which is the coarsest sampling. A list of points is cut into the line
  segments between neighbours. No theorem about the spline depends on these choices.
\<close>

definition cubic :: "real \<Rightarrow> real \<Rightarrow> real \<Rightarrow> real \<Rightarrow> real \<Rightarrow> real" where
  "cubic a b c d t = a * t ^ 3 + b * t ^ 2 + c * t + d"

definition cubic_deriv :: "real \<Rightarrow> real \<Rightarrow> real \<Rightarrow> real \<Rightarrow> real" where
  "cubic_deriv a b c t = 3 * a * t ^ 2 + 2 * b * t + c"

definition cubic_getPoint :: "HermiteCurve \<Rightarrow> real \<Rightarrow> bool \<Rightarrow> Point" where
  "cubic_getPoint c t autoscale =
     \<lparr>p_x = cubic (a_x c) (b_x c) (c_x c) (d_x c) t,
      p_y = cubic (a_y c) (b_y c) (c_y c) (d_y c) t,
      p_z = cubic (a_z c) (b_z c) (c_z c) (d_z c) t\<rparr>"

definition cubic_getNormalVector :: "HermiteCurve \<Rightarrow> real \<Rightarrow> bool \<Rightarrow> Vector3" where
  "cubic_getNormalVector c t autoscale =
     \<lparr>v_x = - cubic_deriv (a_y c) (b_y c) (c_y c) t,
      v_y = cubic_deriv (a_x c) (b_x c) (c_x c) t,
      v_z = 0\<rparr>"

definition chord :: "HermiteCurve \<Rightarrow> LineSegment" where
  "chord c = \<lparr>start_point = cubic_getPoint c 0 False, end_point = cubic_getPoint c 1 False\<rparr>"

definition segment_length :: "LineSegment \<Rightarrow> real" where
  "segment_length l =
     sqrt ((p_x (end_point l) - p_x (start_point l))\<^sup>2
         + (p_y (end_point l) - p_y (start_point l))\<^sup>2
         + (p_z (end_point l) - p_z (start_point l))\<^sup>2)"

definition curvature_at_start :: "HermiteCurve \<Rightarrow> real" where
  "curvature_at_start c =
     \<bar>c_x c * (2 * b_y c) - c_y c * (2 * b_x c)\<bar> / sqrt ((c_x c)\<^sup>2 + (c_y c)\<^sup>2) ^ 3"

definition neighbour_segments :: "Point list \<Rightarrow> LineSegment list" where
  "neighbour_segments ps =
     map (\<lambda>(a, b). \<lparr>start_point = a, end_point = b\<rparr>) (zip ps (tl ps))"

text \<open>
  The crossing of two segments in the plane, as the distance from the start of the first
  one; none when they are parallel or cross outside either of them.
\<close>

definition segment_intersection :: "LineSegment \<Rightarrow> LineSegment \<Rightarrow> real option" where
  "segment_intersection l0 l1 =
     (let rx = p_x (end_point l0) - p_x (start_point l0);
          ry = p_y (end_point l0) - p_y (start_point l0);
          qx = p_x (end_point l1) - p_x (start_point l1);
          qy = p_y (end_point l1) - p_y (start_point l1);
          wx = p_x (start_point l1) - p_x (start_point l0);
          wy = p_y (start_point l1) - p_y (start_point l0);
          den = rx * qy - ry * qx
      in if den = 0 then None
         else
           (let t = (wx * qy - wy * qx) / den;
                u = (wx * ry - wy * rx) / den
            in if 0 \<le> t \<and> t \<le> 1 \<and> 0 \<le> u \<and> u \<le> 1
                 then Some (t * sqrt (rx\<^sup>2 + ry\<^sup>2))
               else None))"

definition chord_collision_points ::
  "HermiteCurve \<Rightarrow> Point \<Rightarrow> Point \<Rightarrow> bool \<Rightarrow> real option" where
  "chord_collision_points c point0 point1 search_backward =
     segment_intersection (chord c) \<lparr>start_point = point0, end_point = point1\<rparr>"

definition chord_collision_polygon :: "HermiteCurve \<Rightarrow> Point list \<Rightarrow> bool \<Rightarrow> real option" where
  "chord_collision_polygon c polygon search_backward =
     (case List.map_filter (segment_intersection (chord c)) (neighbour_segments polygon) of
        [] \<Rightarrow> None
      | v # vs \<Rightarrow> Some (if search_backward then max_element v vs else min_element v vs))"

definition chord_geometry :: Geometry where
  "chord_geometry =
     \<lparr>getLineSegments = neighbour_segments,
      LineSegment_getIntersection2DSValue = segment_intersection,
      HermiteCurve_getLength = (\<lambda>c. segment_length (chord c)),
      HermiteCurve_getMaximum2DCurvature = curvature_at_start,
      HermiteCurve_getPoint = cubic_getPoint,
      HermiteCurve_getNormalVector = cubic_getNormalVector,
      HermiteCurve_getCollisionPointIn2D_polygon = chord_collision_polygon,
      HermiteCurve_getCollisionPointIn2D_points = chord_collision_points\<rparr>"

text \<open>Three control points on a line, one unit apart, and the spline built from them.\<close>

definition pt :: "real \<Rightarrow> real \<Rightarrow> real \<Rightarrow> Point" where
  "pt a b c = \<lparr>p_x = a, p_y = b, p_z = c\<rparr>"

definition straight_points :: "Point list" where
  "straight_points = [pt 0 0 0, pt 1 0 0, pt 2 0 0]"

definition straight_spline :: CatmullRomSpline where
  "straight_spline =
     \<lparr>control_points = straight_points,
      line_segments =
        [\<lparr>start_point = pt 0 0 0, end_point = pt 1 0 0\<rparr>,
         \<lparr>start_point = pt 1 0 0, end_point = pt 2 0 0\<rparr>],
      curves =
        [\<lparr>a_x = 0, b_x = 0, c_x = 1, d_x = 0, a_y = 0, b_y = 0, c_y = 0, d_y = 0,
          a_z = 0, b_z = 0, c_z = 0, d_z = 0\<rparr>,
         \<lparr>a_x = 0, b_x = 0, c_x = 1, d_x = 1, a_y = 0, b_y = 0, c_y = 0, d_y = 0,
          a_z = 0, b_z = 0, c_z = 0, d_z = 0\<rparr>],
      length_list = [1, 1],
      maximum_2d_curvatures = [0, 0],
      total_length = 2\<rparr>"

text \<open>Two control points, and the line spline built from them.\<close>

definition line_points :: "Point list" where
  "line_points = [pt 0 0 0, pt 2 0 0]"

definition line_spline :: CatmullRomSpline where
  "line_spline =
     \<lparr>control_points = line_points,
      line_segments = [\<lparr>start_point = pt 0 0 0, end_point = pt 2 0 0\<rparr>],
      curves = [], length_list = [], maximum_2d_curvatures = [], total_length = 0\<rparr>"

text \<open>A rectangle whose boundary crosses that line at \<open>x = 1/2\<close> and at \<open>x = 3/2\<close>.\<close>

definition box :: "Point list" where
  "box = [pt (1/2) (-1) 0, pt (1/2) 1 0, pt (3/2) 1 0, pt (3/2) (-1) 0]"

section \<open>Double precision\<close>

text \<open>
  Where a claim depends on what a \<^verbatim>\<open>double\<close> is (rounding, infinity, NaN), the functions it is
  about are modelled a second time, on the values below and with the operations of IEEE 754
  binary64: every operation gives the exact result rounded to the nearest double, ties to the
  even one. A number is \<open>Num r\<close>; the doubles among them are those that rounding leaves as
  they are. The two zeros are the one value \<open>Num 0\<close> (the source divides by
  \<^verbatim>\<open>static_cast<double>(num_points)\<close> only, which is never the negative zero). Every
  operation of the source is taken to round once: no fused multiply-add and no wider
  intermediate format.
\<close>

datatype double = NaN | MInf | Num real | PInf

definition pow2 :: "int \<Rightarrow> real" where
  "pow2 e = (if 0 \<le> e then 2 ^ nat e else inverse (2 ^ nat (- e)))"

text \<open>Rounding a real to the nearest integer, ties to the even one.\<close>

definition round_even :: "real \<Rightarrow> int" where
  "round_even y =
     (let f = \<lfloor>y\<rfloor>; d = y - of_int f
      in if d < 1 / 2 then f
         else if 1 / 2 < d then f + 1
         else if even f then f else f + 1)"

text \<open>
  The exponent of the binade of \<open>x\<close>, not below that of the subnormal numbers, and the distance
  of neighbouring doubles there (53 significant bits).
\<close>

definition binade :: "real \<Rightarrow> int" where
  "binade x = max \<lfloor>log 2 \<bar>x\<bar>\<rfloor> (- 1022)"

definition ulp :: "real \<Rightarrow> real" where
  "ulp x = pow2 (binade x - 52)"

text \<open>The multiple of that distance nearest to \<open>x\<close>, and the double it is: beyond the largest
  double the result is an infinity.\<close>

definition nearest :: "real \<Rightarrow> real" where
  "nearest x = of_int (round_even (x / ulp x)) * ulp x"

definition round_double :: "real \<Rightarrow> double" where
  "round_double x =
     (if x = 0 then Num 0
      else if pow2 1024 \<le> nearest x then PInf
      else if nearest x \<le> - pow2 1024 then MInf
      else Num (nearest x))"

text \<open>Half the distance of the subnormal numbers: the largest error of rounding near 0.\<close>

definition denormal_half :: real where
  "denormal_half = pow2 (- 1075)"

fun dneg :: "double \<Rightarrow> double" where
  "dneg NaN = NaN"
| "dneg MInf = PInf"
| "dneg (Num a) = Num (- a)"
| "dneg PInf = MInf"

fun dabs :: "double \<Rightarrow> double" where
  "dabs NaN = NaN"
| "dabs MInf = PInf"
| "dabs (Num a) = Num \<bar>a\<bar>"
| "dabs PInf = PInf"

fun dadd :: "double \<Rightarrow> double \<Rightarrow> double" where
  "dadd NaN b = NaN"
| "dadd a NaN = NaN"
| "dadd (Num a) (Num b) = round_double (a + b)"
| "dadd PInf MInf = NaN"
| "dadd MInf PInf = NaN"
| "dadd PInf b = PInf"
| "dadd a PInf = PInf"
| "dadd MInf b = MInf"
| "dadd a MInf = MInf"

definition dsub :: "double \<Rightarrow> double \<Rightarrow> double" where
  "dsub a b = dadd a (dneg b)"

fun dmul :: "double \<Rightarrow> double \<Rightarrow> double" where
  "dmul NaN b = NaN"
| "dmul a NaN = NaN"
| "dmul (Num a) (Num b) = round_double (a * b)"
| "dmul (Num a) PInf = (if a = 0 then NaN else if 0 < a then PInf else MInf)"
| "dmul (Num a) MInf = (if a = 0 then NaN else if 0 < a then MInf else PInf)"
| "dmul PInf (Num b) = (if b = 0 then NaN else if 0 < b then PInf else MInf)"
| "dmul MInf (Num b) = (if b = 0 then NaN else if 0 < b then MInf else PInf)"
| "dmul PInf PInf = PInf"
| "dmul MInf MInf = PInf"
| "dmul PInf MInf = MInf"
| "dmul MInf PInf = MInf"

fun ddiv :: "double \<Rightarrow> double \<Rightarrow> double" where
  "ddiv NaN b = NaN"
| "ddiv a NaN = NaN"
| "ddiv (Num a) (Num b) =
     (if b = 0 then (if a = 0 then NaN else if 0 < a then PInf else MInf)
      else round_double (a / b))"
| "ddiv (Num a) PInf = Num 0"
| "ddiv (Num a) MInf = Num 0"
| "ddiv PInf (Num b) = (if 0 \<le> b then PInf else MInf)"
| "ddiv MInf (Num b) = (if 0 \<le> b then MInf else PInf)"
| "ddiv PInf PInf = NaN"
| "ddiv PInf MInf = NaN"
| "ddiv MInf PInf = NaN"
| "ddiv MInf MInf = NaN"

text \<open>The comparisons: each is false as soon as an operand is NaN.\<close>

fun dlt :: "double \<Rightarrow> double \<Rightarrow> bool" where
  "dlt NaN b = False"
| "dlt a NaN = False"
| "dlt (Num a) (Num b) = (a < b)"
| "dlt MInf MInf = False"
| "dlt MInf b = True"
| "dlt a MInf = False"
| "dlt PInf b = False"
| "dlt a PInf = True"

definition dle :: "double \<Rightarrow> double \<Rightarrow> bool" where
  "dle a b \<longleftrightarrow> a \<noteq> NaN \<and> b \<noteq> NaN \<and> \<not> dlt b a"

definition dgt :: "double \<Rightarrow> double \<Rightarrow> bool" where
  "dgt a b = dlt b a"

definition dge :: "double \<Rightarrow> double \<Rightarrow> bool" where
  "dge a b = dle b a"

text \<open>\<^verbatim>\<open>static_cast<double>\<close> of a \<^verbatim>\<open>size_t\<close>.\<close>

definition double_of_nat :: "nat \<Rightarrow> double" where
  "double_of_nat n = round_double (real n)"


section \<open>The spline on doubles\<close>

text \<open>
  The functions of the source whose result depends on the rounding of a sum or on NaN:
  the resolution of an arc length and its inverse, the point queries, the trajectory and the
  bounds. A point has three doubles. A curve is a value of any type: what the spline needs
  from it are its length, its points and its normal vectors, which the absent class
  HermiteCurve computes, and the functions \<^verbatim>\<open>std::atan2\<close>, \<^verbatim>\<open>std::cos\<close> and \<^verbatim>\<open>std::sin\<close> of
  the C++ library, whose rounding the standard leaves open. All six are parameters.
\<close>

record Point64 =
  x64 :: double
  y64 :: double
  z64 :: double

record 'c Geometry64 =
  HermiteCurve_getLength64 :: "'c \<Rightarrow> double"
  HermiteCurve_getPoint64 :: "'c \<Rightarrow> double \<Rightarrow> bool \<Rightarrow> Point64"
  HermiteCurve_getNormalVector64 :: "'c \<Rightarrow> double \<Rightarrow> bool \<Rightarrow> Point64"
  std_atan2 :: "double \<Rightarrow> double \<Rightarrow> double"
  std_cos :: "double \<Rightarrow> double"
  std_sin :: "double \<Rightarrow> double"

record 'c CatmullRomSpline64 =
  control_points64 :: "Point64 list"
  curves64 :: "'c list"
  length_list64 :: "double list"
  total_length64 :: double

text \<open>
  The default branch of the constructor, after its first loop has built the curves \<open>cs\<close>
  (one less than there are control points): the length of each curve, and their sum from the
  left, starting at 0. The coefficients of the curves and \<^verbatim>\<open>checkConnection\<close>, which decide
  only whether the constructor returns, are those of the first model.
\<close>

definition CatmullRomSpline64 ::
  "'c Geometry64 \<Rightarrow> Point64 list \<Rightarrow> 'c list \<Rightarrow> 'c CatmullRomSpline64" where
  "CatmullRomSpline64 g cps cs =
     \<lparr>control_points64 = cps, curves64 = cs,
      length_list64 = map (HermiteCurve_getLength64 g) cs,
      total_length64 =
        foldl (\<lambda>total len. dadd total len) (Num 0) (map (HermiteCurve_getLength64 g) cs)\<rparr>"

definition getLength64 :: "'c CatmullRomSpline64 \<Rightarrow> double" where
  "getLength64 sp = total_length64 sp"

function getCurveIndexAndS64_loop ::
  "'c CatmullRomSpline64 \<Rightarrow> double \<Rightarrow> nat \<Rightarrow> double \<Rightarrow> error + (nat \<times> double)" where
  "getCurveIndexAndS64_loop sp s i current_s =
     (if i < length (curves64 sp) then
        (if i < length (length_list64 sp) then
           (let prev_s = current_s;
                current_s' = dadd current_s (length_list64 sp ! i)
            in if dle prev_s s \<and> dlt s current_s' then Inr (i, dsub s prev_s)
               else getCurveIndexAndS64_loop sp s (i + 1) current_s')
         else Inl OutOfRange)
      else Inl (SimulationError ''failed to calculate curve index''))"
  by pat_completeness auto
termination
  by (relation "measure (\<lambda>(sp, s, i, c). length (curves64 sp) - i)") auto

definition getCurveIndexAndS64 ::
  "'c Geometry64 \<Rightarrow> 'c CatmullRomSpline64 \<Rightarrow> double \<Rightarrow> error + (nat \<times> double)" where
  "getCurveIndexAndS64 g sp s =
     (if dlt s (Num 0) then Inr (0, s)
      else if dge s (total_length64 sp) then
        (if curves64 sp = [] then Inl OutOfRange
         else Inr (length (curves64 sp) - 1,
                   dsub s (dsub (total_length64 sp)
                     (HermiteCurve_getLength64 g (curves64 sp ! (length (curves64 sp) - 1))))))
      else getCurveIndexAndS64_loop sp s 0 (Num 0))"

function getSInSplineCurve64_loop ::
  "'c Geometry64 \<Rightarrow> 'c CatmullRomSpline64 \<Rightarrow> nat \<Rightarrow> double \<Rightarrow> nat \<Rightarrow> double
     \<Rightarrow> error + double" where
  "getSInSplineCurve64_loop g sp curve_index s i ret =
     (if i < length (curves64 sp) then
        (if i = curve_index then Inr (dadd ret s)
         else getSInSplineCurve64_loop g sp curve_index s (i + 1)
                (dadd ret (HermiteCurve_getLength64 g (curves64 sp ! i))))
      else Inl (SemanticError ''curve index does not match''))"
  by pat_completeness auto
termination
  by (relation "measure (\<lambda>(g, sp, k, s, i, r). length (curves64 sp) - i)") auto

definition getSInSplineCurve64 ::
  "'c Geometry64 \<Rightarrow> 'c CatmullRomSpline64 \<Rightarrow> nat \<Rightarrow> double \<Rightarrow> error + double" where
  "getSInSplineCurve64 g sp curve_index s =
     getSInSplineCurve64_loop g sp curve_index s 0 (Num 0)"

definition getPoint64 :: "'c Geometry64 \<Rightarrow> 'c CatmullRomSpline64 \<Rightarrow> double \<Rightarrow> error + Point64" where
  "getPoint64 g sp s =
     (case getCurveIndexAndS64 g sp s of
        Inl e \<Rightarrow> Inl e
      | Inr index_and_s \<Rightarrow>
          if fst index_and_s < length (curves64 sp)
            then Inr (HermiteCurve_getPoint64 g (curves64 sp ! fst index_and_s)
                        (snd index_and_s) True)
          else Inl OutOfRange)"

definition getNormalVector64 ::
  "'c Geometry64 \<Rightarrow> 'c CatmullRomSpline64 \<Rightarrow> double \<Rightarrow> error + Point64" where
  "getNormalVector64 g sp s =
     (case getCurveIndexAndS64 g sp s of
        Inl e \<Rightarrow> Inl e
      | Inr index_and_s \<Rightarrow>
          if fst index_and_s < length (curves64 sp)
            then Inr (HermiteCurve_getNormalVector64 g (curves64 sp ! fst index_and_s)
                        (snd index_and_s) True)
          else Inl OutOfRange)"

definition getPoint_offset64 ::
  "'c Geometry64 \<Rightarrow> 'c CatmullRomSpline64 \<Rightarrow> double \<Rightarrow> double \<Rightarrow> error + Point64" where
  "getPoint_offset64 g sp s offset =
     (case getNormalVector64 g sp s of
        Inl e \<Rightarrow> Inl e
      | Inr vec \<Rightarrow>
          (let theta = std_atan2 g (y64 vec) (x64 vec) in
           case getPoint64 g sp s of
             Inl e \<Rightarrow> Inl e
           | Inr p \<Rightarrow>
               Inr \<lparr>x64 = dadd (x64 p) (dmul offset (std_cos g theta)),
                    y64 = dadd (y64 p) (dmul offset (std_sin g theta)),
                    z64 = z64 p\<rparr>))"

partial_function (option) getTrajectory64_down ::
  "'c Geometry64 \<Rightarrow> 'c CatmullRomSpline64 \<Rightarrow> double \<Rightarrow> double \<Rightarrow> double \<Rightarrow> double
     \<Rightarrow> Point64 list \<Rightarrow> (error + Point64 list) option" where
  "getTrajectory64_down g sp s end_s resolution offset ret =
     (if dgt s end_s then
        (case getPoint_offset64 g sp s offset of
           Inl e \<Rightarrow> Some (Inl e)
         | Inr p \<Rightarrow>
             getTrajectory64_down g sp (dsub s (dabs resolution)) end_s resolution offset
               (ret @ [p]))
      else Some (Inr ret))"

partial_function (option) getTrajectory64_up ::
  "'c Geometry64 \<Rightarrow> 'c CatmullRomSpline64 \<Rightarrow> double \<Rightarrow> double \<Rightarrow> double \<Rightarrow> double
     \<Rightarrow> Point64 list \<Rightarrow> (error + Point64 list) option" where
  "getTrajectory64_up g sp s end_s resolution offset ret =
     (if dlt s end_s then
        (case getPoint_offset64 g sp s offset of
           Inl e \<Rightarrow> Some (Inl e)
         | Inr p \<Rightarrow>
             getTrajectory64_up g sp (dadd s (dabs resolution)) end_s resolution offset
               (ret @ [p]))
      else Some (Inr ret))"

definition getTrajectory64_finish ::
  "'c Geometry64 \<Rightarrow> 'c CatmullRomSpline64 \<Rightarrow> double \<Rightarrow> double
     \<Rightarrow> (error + Point64 list) option \<Rightarrow> (error + Point64 list) option" where
  "getTrajectory64_finish g sp end_s offset r =
     (case r of
        None \<Rightarrow> None
      | Some (Inl e) \<Rightarrow> Some (Inl e)
      | Some (Inr ret) \<Rightarrow>
          (case getPoint_offset64 g sp end_s offset of
             Inl e \<Rightarrow> Some (Inl e)
           | Inr p \<Rightarrow> Some (Inr (ret @ [p]))))"

definition getTrajectory64 ::
  "'c Geometry64 \<Rightarrow> 'c CatmullRomSpline64 \<Rightarrow> double \<Rightarrow> double \<Rightarrow> double \<Rightarrow> double
     \<Rightarrow> (error + Point64 list) option" where
  "getTrajectory64 g sp start_s end_s resolution offset =
     (if dgt start_s end_s then
        getTrajectory64_finish g sp end_s offset
          (getTrajectory64_down g sp start_s end_s resolution offset [])
      else
        getTrajectory64_finish g sp end_s offset
          (getTrajectory64_up g sp start_s end_s resolution offset []))"

text \<open>A \<^verbatim>\<open>for\<close> loop that appends one point for each index, and stops at the first exception.\<close>

fun emplace_each :: "(nat \<Rightarrow> error + Point64) \<Rightarrow> nat list \<Rightarrow> error + Point64 list" where
  "emplace_each f [] = Inr []"
| "emplace_each f (i # is) =
     (case f i of
        Inl e \<Rightarrow> Inl e
      | Inr p \<Rightarrow> (case emplace_each f is of Inl e \<Rightarrow> Inl e | Inr ps \<Rightarrow> Inr (p # ps)))"

definition right_bound_point64 ::
  "'c Geometry64 \<Rightarrow> 'c CatmullRomSpline64 \<Rightarrow> double \<Rightarrow> double \<Rightarrow> double \<Rightarrow> error + Point64" where
  "right_bound_point64 g sp width s z_offset =
     (case getNormalVector64 g sp s of
        Inl e \<Rightarrow> Inl e
      | Inr vec \<Rightarrow>
          (let theta = std_atan2 g (y64 vec) (x64 vec) in
           case getPoint64 g sp s of
             Inl e \<Rightarrow> Inl e
           | Inr p \<Rightarrow>
               Inr \<lparr>x64 = dadd (x64 p) (dmul (dmul (Num 0.5) width) (std_cos g theta)),
                    y64 = dadd (y64 p) (dmul (dmul (Num 0.5) width) (std_sin g theta)),
                    z64 = dadd (z64 p) z_offset\<rparr>))"

definition left_bound_point64 ::
  "'c Geometry64 \<Rightarrow> 'c CatmullRomSpline64 \<Rightarrow> double \<Rightarrow> double \<Rightarrow> double \<Rightarrow> error + Point64" where
  "left_bound_point64 g sp width s z_offset =
     (case getNormalVector64 g sp s of
        Inl e \<Rightarrow> Inl e
      | Inr vec \<Rightarrow>
          (let theta = std_atan2 g (y64 vec) (x64 vec) in
           case getPoint64 g sp s of
             Inl e \<Rightarrow> Inl e
           | Inr p \<Rightarrow>
               Inr \<lparr>x64 = dsub (x64 p) (dmul (dmul (Num 0.5) width) (std_cos g theta)),
                    y64 = dsub (y64 p) (dmul (dmul (Num 0.5) width) (std_sin g theta)),
                    z64 = dadd (z64 p) z_offset\<rparr>))"

text \<open>
  The index \<open>i\<close> runs below \<^verbatim>\<open>static_cast<size_t>(num_points + 1)\<close>, a sum of 64-bit words
  that wraps.
\<close>

definition getRightBounds64 ::
  "'c Geometry64 \<Rightarrow> 'c CatmullRomSpline64 \<Rightarrow> double \<Rightarrow> 64 word \<Rightarrow> double
     \<Rightarrow> error + Point64 list" where
  "getRightBounds64 g sp width num_points z_offset =
     (let step_size = ddiv (getLength64 sp) (double_of_nat (unat num_points)) in
      emplace_each
        (\<lambda>i. right_bound_point64 g sp width (dmul step_size (double_of_nat i)) z_offset)
        [0 ..< unat (num_points + 1)])"

definition getLeftBounds64 ::
  "'c Geometry64 \<Rightarrow> 'c CatmullRomSpline64 \<Rightarrow> double \<Rightarrow> 64 word \<Rightarrow> double
     \<Rightarrow> error + Point64 list" where
  "getLeftBounds64 g sp width num_points z_offset =
     (let step_size = ddiv (getLength64 sp) (double_of_nat (unat num_points)) in
      emplace_each
        (\<lambda>i. left_bound_point64 g sp width (dmul step_size (double_of_nat i)) z_offset)
        [0 ..< unat (num_points + 1)])"

section \<open>An instance of the absent operations on doubles\<close>

text \<open>
  A curve is a straight piece of the x axis, given by its start and its length; its point at
  a local arc length is the start plus that length, rounded, and its normal vector points
  along the y axis. The library functions round the exact value once.
\<close>

definition axis_getPoint :: "real \<times> real \<Rightarrow> double \<Rightarrow> bool \<Rightarrow> Point64" where
  "axis_getPoint c t autoscale = \<lparr>x64 = dadd (Num (fst c)) t, y64 = Num 0, z64 = Num 0\<rparr>"

definition axis_getNormalVector :: "real \<times> real \<Rightarrow> double \<Rightarrow> bool \<Rightarrow> Point64" where
  "axis_getNormalVector c t autoscale = \<lparr>x64 = Num 0, y64 = Num 1, z64 = Num 0\<rparr>"

definition rounded_atan2 :: "double \<Rightarrow> double \<Rightarrow> double" where
  "rounded_atan2 y x =
     (case y of
        Num b \<Rightarrow> (case x of Num a \<Rightarrow> round_double (atan2 b a) | _ \<Rightarrow> NaN)
      | _ \<Rightarrow> NaN)"

definition rounded_cos :: "double \<Rightarrow> double" where
  "rounded_cos t = (case t of Num a \<Rightarrow> round_double (cos a) | _ \<Rightarrow> NaN)"

definition rounded_sin :: "double \<Rightarrow> double" where
  "rounded_sin t = (case t of Num a \<Rightarrow> round_double (sin a) | _ \<Rightarrow> NaN)"

definition axis_geometry :: "(real \<times> real) Geometry64" where
  "axis_geometry =
     \<lparr>HermiteCurve_getLength64 = (\<lambda>c. Num (snd c)),
      HermiteCurve_getPoint64 = axis_getPoint,
      HermiteCurve_getNormalVector64 = axis_getNormalVector,
      std_atan2 = rounded_atan2,
      std_cos = rounded_cos,
      std_sin = rounded_sin\<rparr>"

definition pt64 :: "real \<Rightarrow> real \<Rightarrow> real \<Rightarrow> Point64" where
  "pt64 a b c = \<lparr>x64 = Num a, y64 = Num b, z64 = Num c\<rparr>"

text \<open>Three control points one unit apart, with the two curves between them.\<close>

definition unit_spline :: "(real \<times> real) CatmullRomSpline64" where
  "unit_spline =
     CatmullRomSpline64 axis_geometry [pt64 0 0 0, pt64 1 0 0, pt64 2 0 0] [(0, 1), (1, 1)]"

text \<open>
  Three control points at 0, \<open>1 + 2\<^sup>-\<^sup>5\<^sup>2\<close> and \<open>4 + 2\<^sup>-\<^sup>5\<^sup>2\<close>: the curves have the lengths
  \<open>1 + 2\<^sup>-\<^sup>5\<^sup>2\<close> and 3, both doubles.
\<close>

definition uneven_spline :: "(real \<times> real) CatmullRomSpline64" where
  "uneven_spline =
     CatmullRomSpline64 axis_geometry
       [pt64 0 0 0, pt64 (1 + 1 / 2 ^ 52) 0 0, pt64 (4 + 1 / 2 ^ 52) 0 0]
       [(0, 1 + 1 / 2 ^ 52), (1 + 1 / 2 ^ 52, 3)]"


section \<open>Lemmas\<close>

lemma CatmullRomSpline_small:
  assumes "length cps = 1 \<or> length cps = 2"
  shows "CatmullRomSpline g uninit cps =
           Inr \<lparr>control_points = cps, line_segments = getLineSegments g cps,
                curves = [], length_list = [], maximum_2d_curvatures = [],
                total_length = uninit\<rparr>"
  using assms by (auto simp: CatmullRomSpline_def Let_def)

lemma CatmullRomSpline_curve:
  assumes ok: "CatmullRomSpline g uninit cps = Inr sp" and n: "3 \<le> length cps"
  shows "control_points sp = cps"
    and "line_segments sp = getLineSegments g cps"
    and "curves sp = map (make_curve cps (length cps - 1)) [0 ..< length cps - 1]"
    and "length_list sp = map (HermiteCurve_getLength g) (curves sp)"
    and "total_length sp = foldl (\<lambda>total len. total + len) 0 (length_list sp)"
    and "checkConnection g sp = Inr True"
  using assms
  by (auto simp: CatmullRomSpline_def Let_def checkConnection_def split: sum.splits if_splits option.splits)

lemma checkConnection_loop_None:
  assumes "checkConnection_loop g cps cs is = None" and "i \<in> set is"
  shows "equals (cps ! i) (HermiteCurve_getPoint g (cs ! i) 0 False)
       \<and> equals (cps ! (i + 1)) (HermiteCurve_getPoint g (cs ! i) 1 False)"
  using assms
  by (induction "is") (auto simp: Let_def split: if_splits)

lemma checkConnection_loop_error:
  "checkConnection_loop g cps cs is = Some e \<Longrightarrow> e \<noteq> SemanticError msg"
  by (induction "is") (auto simp: Let_def split: if_splits)

lemma checkConnection_not_semantic: "checkConnection g sp \<noteq> Inl (SemanticError msg)"
  by (auto simp: checkConnection_def dest: checkConnection_loop_error split: option.splits)

lemma equals_iff:
  "equals p q \<longleftrightarrow> \<bar>p_x p - p_x q\<bar> \<le> float_epsilon \<and> \<bar>p_y p - p_y q\<bar> \<le> float_epsilon
     \<and> \<bar>p_z p - p_z q\<bar> \<le> float_epsilon"
  by (auto simp: equals_def Let_def)

lemma collision_scan_no_curves:
  assumes "curves sp = []"
  shows "collision_scan_forward g sp hit 0 = Inr None"
    and "collision_scan_backward g sp hit 0 = Inr None"
  using assms by simp_all













lemma straight_spline_built:
  "CatmullRomSpline chord_geometry 0 straight_points = Inr straight_spline"
  by (simp add: CatmullRomSpline_def chord_geometry_def straight_points_def straight_spline_def
      pt_def checkConnection_def make_curve_def first_curve_def last_curve_def equals_def
      float_epsilon_def cubic_getPoint_def cubic_def segment_length_def chord_def
      curvature_at_start_def neighbour_segments_def upt_rec Let_def)

lemma line_spline_built:
  "CatmullRomSpline chord_geometry 0 line_points = Inr line_spline"
  by (simp add: CatmullRomSpline_def chord_geometry_def line_points_def line_spline_def pt_def
      neighbour_segments_def Let_def)



lemma max_element_Max: "max_element v vs = Max (set (v # vs))"
proof -
  have "foldl (\<lambda>largest c. if largest < c then c else largest) v vs = Max (set (v # vs))"
  proof (induction vs arbitrary: v)
    case Nil
    show ?case by simp
  next
    case (Cons a vs)
    have "(if v < a then a else v) = max v a" by (simp add: max_def)
    then have "foldl (\<lambda>largest c. if largest < c then c else largest) v (a # vs)
          = Max (set (max v a # vs))"
      using Cons.IH [of "max v a"] by simp
    also have "\<dots> = Max (set (v # a # vs))"
      by (cases "vs = []") (simp_all add: max.assoc)
    finally show ?case .
  qed
  then show ?thesis by (simp add: max_element_def)
qed

lemma min_element_Min: "min_element v vs = Min (set (v # vs))"
proof -
  have "foldl (\<lambda>smallest c. if c < smallest then c else smallest) v vs = Min (set (v # vs))"
  proof (induction vs arbitrary: v)
    case Nil
    show ?case by simp
  next
    case (Cons a vs)
    have "(if a < v then a else v) = min v a" by (simp add: min_def)
    then have "foldl (\<lambda>smallest c. if c < smallest then c else smallest) v (a # vs)
          = Min (set (min v a # vs))"
      using Cons.IH [of "min v a"] by simp
    also have "\<dots> = Min (set (v # a # vs))"
      by (cases "vs = []") (simp_all add: min.assoc)
    finally show ?case .
  qed
  then show ?thesis by (simp add: min_element_def)
qed

lemma set_map_filter: "set (List.map_filter f xs) = {y. \<exists>x \<in> set xs. f x = Some y}"
  by (induction xs) (auto split: option.splits)

lemma straight_points_length: "length straight_points = 3"
  by (simp add: straight_points_def)

lemma line_points_length: "length line_points = 2"
  by (simp add: line_points_def)


lemma equals_refl: "equals p p"
  by (simp add: equals_def float_epsilon_def)

lemma checkConnection_loop_passes:
  assumes "\<forall>i \<in> set is. equals (cps ! i) (HermiteCurve_getPoint g (cs ! i) 0 False)
       \<and> equals (cps ! (i + 1)) (HermiteCurve_getPoint g (cs ! i) 1 False)"
  shows "checkConnection_loop g cps cs is = None"
  using assms by (induction "is") (simp_all add: Let_def)

lemma cubic_getPoint_ends:
  "cubic_getPoint c 0 a = \<lparr>p_x = d_x c, p_y = d_y c, p_z = d_z c\<rparr>"
  "cubic_getPoint c 1 a =
     \<lparr>p_x = a_x c + b_x c + c_x c + d_x c, p_y = a_y c + b_y c + c_y c + d_y c,
      p_z = a_z c + b_z c + c_z c + d_z c\<rparr>"
  by (simp_all add: cubic_getPoint_def cubic_def)

text \<open>
  With exact arithmetic, the coefficients of the constructor give curves that start and end
  at the control points.
\<close>

lemma make_curve_ends:
  assumes "3 \<le> length cps" and "i < length cps - 1"
  shows "cubic_getPoint (make_curve cps (length cps - 1) i) 0 False = cps ! i"
    and "cubic_getPoint (make_curve cps (length cps - 1) i) 1 False = cps ! (i + 1)"
proof -
  consider "i = 0" | "i \<noteq> 0" "i = length cps - 1 - 1" | "i \<noteq> 0" "i \<noteq> length cps - 1 - 1"
    by blast
  then have "cubic_getPoint (make_curve cps (length cps - 1) i) 0 False = cps ! i
      \<and> cubic_getPoint (make_curve cps (length cps - 1) i) 1 False = cps ! (i + 1)"
  proof cases
    case 1
    then show ?thesis
      by (intro conjI Point.equality)
         (simp_all add: make_curve_def first_curve_def cubic_getPoint_ends field_simps)
  next
    case 2
    then show ?thesis
      by (intro conjI Point.equality)
         (simp_all add: make_curve_def last_curve_def cubic_getPoint_ends field_simps)
  next
    case 3
    then show ?thesis
      by (intro conjI Point.equality)
         (simp_all add: make_curve_def middle_curve_def cubic_getPoint_ends field_simps)
  qed
  then show "cubic_getPoint (make_curve cps (length cps - 1) i) 0 False = cps ! i"
    and "cubic_getPoint (make_curve cps (length cps - 1) i) 1 False = cps ! (i + 1)"
    by simp_all
qed

lemma CatmullRomSpline_cubic_succeeds:
  assumes "HermiteCurve_getPoint g = cubic_getPoint" and "3 \<le> length cps"
  shows "\<exists>sp. CatmullRomSpline g uninit cps = Inr sp"
proof -
  let ?n = "length cps - 1"
  let ?cs = "map (make_curve cps ?n) [0 ..< ?n]"
  have "checkConnection_loop g cps ?cs [0 ..< ?n] = None"
  proof (rule checkConnection_loop_passes, intro ballI)
    fix i assume "i \<in> set [0 ..< ?n]"
    then have i: "i < ?n" by simp
    have c: "?cs ! i = make_curve cps ?n i" using i by simp
    show "equals (cps ! i) (HermiteCurve_getPoint g (?cs ! i) 0 False)
        \<and> equals (cps ! (i + 1)) (HermiteCurve_getPoint g (?cs ! i) 1 False)"
      unfolding assms(1) c make_curve_ends [OF assms(2) i]
      by (simp add: equals_refl)
  qed
  moreover have "cps \<noteq> []" "length cps \<noteq> 1" "length cps \<noteq> 2" "?n \<noteq> 0"
    using assms(2) by auto
  ultimately show ?thesis
    by (simp add: CatmullRomSpline_def Let_def checkConnection_def)
qed


lemma pow2_pos [simp]: "0 < pow2 e"
  by (simp add: pow2_def)

lemma pow2_nonneg [simp]: "0 \<le> pow2 e"
  by (rule less_imp_le) (rule pow2_pos)

lemma pow2_powr: "pow2 e = 2 powr (of_int e)"
proof (cases "0 \<le> e")
  case True
  then show ?thesis
    by (simp add: pow2_def powr_realpow [symmetric])
next
  case False
  then have n: "real (nat (- e)) = - of_int e" by simp
  have "2 powr (real (nat (- e))) = 2 ^ nat (- e)"
    by (rule powr_realpow) simp
  moreover have "2 powr (of_int e) = inverse (2 powr (real (nat (- e))))"
    unfolding n by (simp add: powr_minus)
  ultimately show ?thesis
    using False by (simp add: pow2_def)
qed

lemma pow2_add: "pow2 (a + b) = pow2 a * pow2 b"
  by (simp add: pow2_powr powr_add)

lemma pow2_mono: "a \<le> b \<Longrightarrow> pow2 a \<le> pow2 b"
  by (simp add: pow2_powr)

lemma round_even_error: "\<bar>of_int (round_even y) - y\<bar> \<le> 1 / 2"
proof -
  have "of_int \<lfloor>y\<rfloor> \<le> y" "y < of_int \<lfloor>y\<rfloor> + 1" by linarith+
  then show ?thesis
    by (auto simp: round_even_def Let_def)
qed

lemma round_even_nonneg: "0 \<le> y \<Longrightarrow> 0 \<le> round_even y"
  by (auto simp: round_even_def Let_def)

lemma round_even_0 [simp]: "round_even 0 = 0"
  by (simp add: round_even_def)

lemma round_even_nonpos:
  assumes "y \<le> 0"
  shows "round_even y \<le> 0"
proof (cases "\<lfloor>y\<rfloor> = 0")
  case True
  then have "0 \<le> y" by linarith
  with assms have "y = 0" by simp
  then show ?thesis by (simp add: round_even_def)
next
  case False
  moreover have "\<lfloor>y\<rfloor> \<le> 0" using assms by linarith
  ultimately have "\<lfloor>y\<rfloor> + 1 \<le> 0" by linarith
  then show ?thesis
    by (auto simp: round_even_def Let_def)
qed

lemma ulp_pos [simp]: "0 < ulp x"
  by (simp add: ulp_def)

lemma ulp_nonneg [simp]: "0 \<le> ulp x"
  by (rule less_imp_le) (rule ulp_pos)

lemma half_ulp_le:
  assumes "x \<noteq> 0"
  shows "ulp x / 2 \<le> \<bar>x\<bar> / 2 ^ 53 + denormal_half"
proof (cases "\<lfloor>log 2 \<bar>x\<bar>\<rfloor> \<le> - 1022")
  case True
  then have "ulp x = pow2 (- 1074)"
    by (simp add: ulp_def binade_def max_def)
  also have "\<dots> = pow2 (- 1075 + 1)" by simp
  also have "\<dots> = denormal_half * 2"
    by (simp only: pow2_add denormal_half_def) (simp add: pow2_def)
  finally show ?thesis by simp
next
  case False
  then have b: "binade x = \<lfloor>log 2 \<bar>x\<bar>\<rfloor>"
    by (simp add: binade_def max_def)
  have "2 powr (of_int \<lfloor>log 2 \<bar>x\<bar>\<rfloor>) \<le> 2 powr (log 2 \<bar>x\<bar>)"
    by (intro powr_mono) simp_all
  also have "\<dots> = \<bar>x\<bar>" using assms by simp
  finally have "pow2 (binade x) \<le> \<bar>x\<bar>"
    by (simp add: pow2_powr b)
  moreover have "ulp x = pow2 (binade x) * pow2 (- 52)"
    by (simp add: ulp_def pow2_add [symmetric])
  moreover have "pow2 (- 52) = 1 / 2 ^ 52"
    by (simp add: pow2_def inverse_eq_divide)
  moreover have "0 \<le> denormal_half"
    by (simp add: denormal_half_def less_imp_le)
  ultimately show ?thesis by simp
qed

lemma round_double_not_NaN [simp]: "round_double x \<noteq> NaN"
  by (simp add: round_double_def)

lemma nearest_error:
  assumes "x \<noteq> 0"
  shows "\<bar>nearest x - x\<bar> \<le> \<bar>x\<bar> / 2 ^ 53 + denormal_half"
proof -
  have "ulp x \<noteq> 0" using ulp_pos [of x] by linarith
  then have "nearest x - x = (of_int (round_even (x / ulp x)) - x / ulp x) * ulp x"
    by (simp add: nearest_def left_diff_distrib)
  moreover have "\<bar>ulp x\<bar> = ulp x" using ulp_pos [of x] by linarith
  ultimately have "\<bar>nearest x - x\<bar> = \<bar>of_int (round_even (x / ulp x)) - x / ulp x\<bar> * ulp x"
    by (simp add: abs_mult)
  also have "\<dots> \<le> 1 / 2 * ulp x"
    by (intro mult_right_mono round_even_error) simp
  also have "\<dots> \<le> \<bar>x\<bar> / 2 ^ 53 + denormal_half"
    using half_ulp_le [OF assms] by simp
  finally show ?thesis .
qed

lemma denormal_half_nonneg [simp]: "0 \<le> denormal_half"
  by (simp add: denormal_half_def)

lemma round_double_error:
  assumes "round_double x = Num r"
  shows "\<bar>r - x\<bar> \<le> \<bar>x\<bar> / 2 ^ 53 + denormal_half"
proof (cases "x = 0")
  case True
  with assms show ?thesis
    by (simp add: round_double_def)
next
  case False
  with assms have "r = nearest x"
    by (simp add: round_double_def split: if_splits)
  with nearest_error [OF False] show ?thesis by simp
qed

lemma round_double_cases:
  obtains (num) r where "round_double x = Num r" | (pinf) "round_double x = PInf" "0 < x"
    | (minf) "round_double x = MInf" "x < 0"
proof (cases "x = 0")
  case True
  then show ?thesis using num by (simp add: round_double_def)
next
  case False
  have sign: "0 \<le> nearest x" if "0 \<le> x"
    using that by (simp add: nearest_def round_even_nonneg)
  have sign': "nearest x \<le> 0" if "x \<le> 0"
  proof -
    have "x / ulp x \<le> 0" using that by (simp add: divide_nonpos_pos)
    then have "round_even (x / ulp x) \<le> 0"
      by (rule round_even_nonpos)
    then show ?thesis
      by (simp add: nearest_def mult_nonpos_nonneg)
  qed
  have p: "0 < pow2 1024" by simp
  show ?thesis
  proof (cases "pow2 1024 \<le> nearest x")
    case True
    with sign' p have "0 < x" by (cases "0 < x") auto
    with True False show ?thesis using pinf by (simp add: round_double_def)
  next
    case hi: False
    show ?thesis
    proof (cases "nearest x \<le> - pow2 1024")
      case True
      with sign p have "x < 0" by (cases "x < 0") auto
      with True hi False show ?thesis using minf by (simp add: round_double_def)
    next
      case False
      with hi \<open>x \<noteq> 0\<close> show ?thesis using num by (simp add: round_double_def)
    qed
  qed
qed

text \<open>No overflow below \<open>2\<^sup>1\<^sup>0\<^sup>2\<^sup>3\<close>.\<close>

lemma pow2_1024: "pow2 1024 = 2 * pow2 1023"
proof -
  have "pow2 1024 = pow2 (1 + 1023)" by simp
  also have "\<dots> = pow2 1 * pow2 1023" by (simp only: pow2_add)
  finally show ?thesis by (simp add: pow2_def)
qed

lemma denormal_half_le_one: "denormal_half \<le> 1"
proof -
  have "pow2 (- 1075) \<le> pow2 0" by (rule pow2_mono) simp
  then show ?thesis by (simp add: denormal_half_def pow2_def)
qed

lemma four_le_pow2_1023: "4 \<le> pow2 1023"
proof -
  have "pow2 2 \<le> pow2 1023" by (rule pow2_mono) simp
  then show ?thesis by (simp add: pow2_def)
qed

lemma round_double_nearest:
  assumes "\<bar>x\<bar> \<le> pow2 1023"
  shows "round_double x = Num (nearest x)"
proof (cases "x = 0")
  case True
  then show ?thesis by (simp add: round_double_def nearest_def)
next
  case False
  have "\<bar>x\<bar> / 2 ^ 53 \<le> \<bar>x\<bar> / 4"
    by (intro divide_left_mono) simp_all
  with nearest_error [OF False] assms denormal_half_le_one four_le_pow2_1023
  have "\<bar>nearest x\<bar> < pow2 1024"
    unfolding pow2_1024 by linarith
  then have "\<not> pow2 1024 \<le> nearest x" "\<not> nearest x \<le> - pow2 1024"
    by linarith+
  then show ?thesis
    using False by (simp add: round_double_def)
qed

lemma round_double_Num:
  assumes "\<bar>x\<bar> \<le> pow2 1023"
  obtains r where "round_double x = Num r" "\<bar>r - x\<bar> \<le> \<bar>x\<bar> / 2 ^ 53 + denormal_half"
  using round_double_nearest [OF assms] round_double_error [of x "nearest x"] that
  by simp

lemma round_double_nonneg:
  assumes "0 \<le> x"
  shows "round_double x = PInf \<or> (\<exists>r\<ge>0. round_double x = Num r)"
proof (cases "x = 0")
  case True
  then show ?thesis by (simp add: round_double_def)
next
  case False
  have "0 \<le> nearest x"
    using assms by (simp add: nearest_def round_even_nonneg)
  moreover have "0 < pow2 1024" by simp
  ultimately show ?thesis
    using False by (auto simp: round_double_def)
qed

text \<open>Evaluating the rounding of a number whose binade is known.\<close>

lemma ulp_eq:
  assumes "pow2 e \<le> \<bar>x\<bar>" and "\<bar>x\<bar> < pow2 (e + 1)" and "- 1022 \<le> e"
  shows "ulp x = pow2 (e - 52)"
proof -
  have "0 < \<bar>x\<bar>" using assms(1) pow2_pos [of e] by linarith
  moreover have "2 powr (of_int e) \<le> \<bar>x\<bar>" "\<bar>x\<bar> < 2 powr (of_int e + 1)"
    using assms(1,2) by (simp_all add: pow2_powr)
  ultimately have "\<lfloor>log 2 \<bar>x\<bar>\<rfloor> = e"
    by (subst floor_log_eq_powr_iff) simp_all
  with assms(3) show ?thesis
    by (simp add: ulp_def binade_def max_def)
qed

lemma round_even_eq:
  assumes "of_int f \<le> y" and "y < of_int f + 1"
  shows "round_even y =
           (if y - of_int f < 1 / 2 then f
            else if 1 / 2 < y - of_int f then f + 1
            else if even f then f else f + 1)"
proof -
  have "\<lfloor>y\<rfloor> = f" using assms by linarith
  then show ?thesis by (simp add: round_even_def Let_def)
qed

lemma nearest_eq:
  assumes "pow2 e \<le> \<bar>x\<bar>" and "\<bar>x\<bar> < pow2 (e + 1)" and "- 1022 \<le> e"
    and "of_int f \<le> x / pow2 (e - 52)" and "x / pow2 (e - 52) < of_int f + 1"
  shows "nearest x =
           of_int (if x / pow2 (e - 52) - of_int f < 1 / 2 then f
                   else if 1 / 2 < x / pow2 (e - 52) - of_int f then f + 1
                   else if even f then f else f + 1) * pow2 (e - 52)"
  unfolding nearest_def ulp_eq [OF assms(1-3)] round_even_eq [OF assms(4,5)] ..

lemma ex_a: "round_double (10 ^ 16 + 1) = Num (10 ^ 16)"
proof -
  have "nearest (10 ^ 16 + 1) = 10 ^ 16"
    by (subst nearest_eq [where e = 53 and f = 5000000000000000]) (simp_all add: pow2_def)
  moreover have "round_double (10 ^ 16 + 1) = Num (nearest (10 ^ 16 + 1))"
    by (rule round_double_nearest) (simp add: pow2_def)
  ultimately show ?thesis by simp
qed


lemma dle_zero_cases:
  assumes "dle (Num 0) a"
  obtains (num) r where "a = Num r" "0 \<le> r" | (pinf) "a = PInf"
  using assms by (cases a) (auto simp: dle_def)

lemma dadd_nonneg:
  assumes "dle (Num 0) a" and "dle (Num 0) b"
  shows "dle (Num 0) (dadd a b)"
proof -
  from assms(1) show ?thesis
  proof (cases rule: dle_zero_cases)
    case (num r)
    from assms(2) show ?thesis
    proof (cases rule: dle_zero_cases)
      case num': (num q)
      have "0 \<le> r + q" using num num' by simp
      from round_double_nonneg [OF this] show ?thesis
        using num num' by (auto simp: dle_def)
    next
      case pinf
      with num show ?thesis by (simp add: dle_def)
    qed
  next
    case pinf
    with assms(2) show ?thesis
      by (cases rule: dle_zero_cases) (simp_all add: dle_def)
  qed
qed

lemma foldl_dadd_nonneg:
  assumes "dle (Num 0) a" and "\<forall>l \<in> set ll. dle (Num 0) l"
  shows "dle (Num 0) (foldl (\<lambda>total len. dadd total len) a ll)"
  using assms by (induction ll arbitrary: a) (simp_all add: dadd_nonneg)

lemma foldl_take_Suc:
  "i < length ll \<Longrightarrow> foldl f a (take (Suc i) ll) = f (foldl f a (take i ll)) (ll ! i)"
  by (simp add: take_Suc_conv_app_nth)

text \<open>The sum of the first \<open>i\<close> lengths, as the loops compute it.\<close>

lemma partial_sum_nonneg:
  assumes "\<forall>l \<in> set ll. dle (Num 0) l"
  shows "dle (Num 0) (foldl (\<lambda>total len. dadd total len) (Num 0) (take i ll))"
  using assms by (intro foldl_dadd_nonneg) (auto simp: dle_def dest: in_set_takeD)

lemma getCurveIndexAndS64_loop_finds:
  assumes "length (length_list64 sp) = length (curves64 sp)"
    and "\<forall>l \<in> set (length_list64 sp). dle (Num 0) l"
    and "s \<noteq> NaN"
    and "i \<le> length (curves64 sp)"
    and "dle (foldl (\<lambda>total len. dadd total len) (Num 0) (take i (length_list64 sp))) s"
    and "dlt s (foldl (\<lambda>total len. dadd total len) (Num 0) (length_list64 sp))"
  shows "\<exists>j. i \<le> j \<and> j < length (curves64 sp)
           \<and> dle (foldl (\<lambda>total len. dadd total len) (Num 0) (take j (length_list64 sp))) s
           \<and> dlt s (foldl (\<lambda>total len. dadd total len) (Num 0) (take (Suc j) (length_list64 sp)))
           \<and> getCurveIndexAndS64_loop sp s i
                (foldl (\<lambda>total len. dadd total len) (Num 0) (take i (length_list64 sp)))
               = Inr (j, dsub s
                   (foldl (\<lambda>total len. dadd total len) (Num 0) (take j (length_list64 sp))))"
  using assms(4,5)
proof (induction "length (curves64 sp) - i" arbitrary: i)
  case 0
  then have "take i (length_list64 sp) = length_list64 sp"
    using assms(1) by simp
  with 0 assms(6) show ?case by (simp add: dle_def)
next
  case (Suc k)
  let ?P = "\<lambda>j. foldl (\<lambda>total len. dadd total len) (Num 0) (take j (length_list64 sp))"
  from Suc have i: "i < length (curves64 sp)" "i < length (length_list64 sp)"
    using assms(1) by simp_all
  have step: "dadd (?P i) (length_list64 sp ! i) = ?P (Suc i)"
    using i(2) by (simp add: foldl_take_Suc)
  show ?case
  proof (cases "dlt s (?P (Suc i))")
    case True
    have "getCurveIndexAndS64_loop sp s i (?P i) = Inr (i, dsub s (?P i))"
      using i True Suc.prems(2)
      by (subst getCurveIndexAndS64_loop.simps) (simp add: step Let_def)
    with i True Suc.prems(2) show ?thesis by blast
  next
    case False
    have next_step: "getCurveIndexAndS64_loop sp s i (?P i)
            = getCurveIndexAndS64_loop sp s (Suc i) (?P (Suc i))"
      using i False
      by (subst getCurveIndexAndS64_loop.simps) (simp add: step Let_def)
    have "?P (Suc i) \<noteq> NaN"
      using partial_sum_nonneg [OF assms(2), of "Suc i"] by (auto simp: dle_def)
    with False assms(3) have le: "dle (?P (Suc i)) s"
      by (simp add: dle_def)
    have k: "k = length (curves64 sp) - Suc i" using Suc.hyps(2) by simp
    have "Suc i \<le> length (curves64 sp)" using i by simp
    from Suc.hyps(1) [OF k this le]
    obtain j where "Suc i \<le> j" "j < length (curves64 sp)"
        "dle (?P j) s" "dlt s (?P (Suc j))"
        "getCurveIndexAndS64_loop sp s (Suc i) (?P (Suc i)) = Inr (j, dsub s (?P j))"
      by blast
    with next_step show ?thesis by (intro exI [of _ j]) simp
  qed
qed

lemma getCurveIndexAndS64_total:
  assumes "curves64 sp \<noteq> []"
    and "length (length_list64 sp) = length (curves64 sp)"
    and "\<forall>l \<in> set (length_list64 sp). dle (Num 0) l"
    and "total_length64 sp = foldl (\<lambda>total len. dadd total len) (Num 0) (length_list64 sp)"
    and "s \<noteq> NaN"
  shows "\<exists>i ls. i < length (curves64 sp) \<and> getCurveIndexAndS64 g sp s = Inr (i, ls)"
proof -
  have tot: "total_length64 sp \<noteq> NaN"
    using foldl_dadd_nonneg [OF _ assms(3), of "Num 0"] assms(4) by (auto simp: dle_def)
  show ?thesis
  proof (cases "dlt s (Num 0)")
    case True
    then show ?thesis using assms(1) by (simp add: getCurveIndexAndS64_def)
  next
    case neg: False
    show ?thesis
    proof (cases "dge s (total_length64 sp)")
      case True
      with neg assms(1) show ?thesis by (simp add: getCurveIndexAndS64_def)
    next
      case False
      then have lt: "dlt s (foldl (\<lambda>total len. dadd total len) (Num 0) (length_list64 sp))"
        using tot assms(4,5) by (simp add: dge_def dle_def)
      have le: "dle (foldl (\<lambda>total len. dadd total len) (Num 0) (take 0 (length_list64 sp))) s"
        using neg assms(5) by (simp add: dle_def)
      from getCurveIndexAndS64_loop_finds [OF assms(2,3,5) _ le lt]
      obtain j where "j < length (curves64 sp)"
        "getCurveIndexAndS64_loop sp s 0 (Num 0) = Inr (j, dsub s
            (foldl (\<lambda>total len. dadd total len) (Num 0) (take j (length_list64 sp))))"
        by auto
      with neg False show ?thesis by (simp add: getCurveIndexAndS64_def)
    qed
  qed
qed

lemma unit_spline_fields:
  "control_points64 unit_spline = [pt64 0 0 0, pt64 1 0 0, pt64 2 0 0]"
  "curves64 unit_spline = [(0, 1), (1, 1)]"
  "length_list64 unit_spline = [Num 1, Num 1]"
  "total_length64 unit_spline = dadd (dadd (Num 0) (Num 1)) (Num 1)"
  by (simp_all add: unit_spline_def CatmullRomSpline64_def axis_geometry_def)

lemma round_double_small_nat:
  "round_double 1 = Num 1" "round_double 2 = Num 2"
proof -
  have "nearest 1 = 1"
    by (subst nearest_eq [where e = 0 and f = "2 ^ 52"]) (simp_all add: pow2_def)
  moreover have "round_double 1 = Num (nearest 1)"
    by (rule round_double_nearest) (simp add: pow2_def)
  ultimately show "round_double 1 = Num 1" by simp
  have "nearest 2 = 2"
    by (subst nearest_eq [where e = 1 and f = "2 ^ 52"]) (simp_all add: pow2_def)
  moreover have "round_double 2 = Num (nearest 2)"
    by (rule round_double_nearest) (simp add: pow2_def)
  ultimately show "round_double 2 = Num 2" by simp
qed

lemma unit_spline_total: "total_length64 unit_spline = Num 2"
  by (simp add: unit_spline_fields round_double_small_nat)

lemma large_pow2_1022: "64 \<le> pow2 1022"
proof -
  have "pow2 6 \<le> pow2 1022" by (rule pow2_mono) simp
  then show ?thesis by (simp add: pow2_def)
qed

lemma pow2_1023: "pow2 1023 = 2 * pow2 1022"
proof -
  have "pow2 1023 = pow2 (1 + 1022)" by simp
  also have "\<dots> = pow2 1 * pow2 1022" by (simp only: pow2_add)
  finally show ?thesis by (simp add: pow2_def)
qed

text \<open>Rounding below \<open>2\<^sup>1\<^sup>0\<^sup>2\<^sup>2 \<times> 5/4\<close>, with the error written without a power.\<close>

lemma round_double_near:
  assumes "\<bar>x\<bar> \<le> pow2 1022 * (5 / 4) + 1"
  obtains r where "round_double x = Num r"
    "\<bar>r - x\<bar> \<le> \<bar>x\<bar> / 9007199254740992 + denormal_half"
proof -
  have "\<bar>x\<bar> \<le> pow2 1023"
    using assms large_pow2_1022 unfolding pow2_1023 by linarith
  from round_double_Num [OF this] show ?thesis
    using that by auto
qed

lemma round_trip_inside_bound:
  assumes "0 \<le> p" and "p \<le> \<sigma>" and "\<sigma> \<le> pow2 1022"
  obtains d r where "round_double (\<sigma> - p) = Num d" "round_double (p + d) = Num r"
    "\<bar>r - \<sigma>\<bar> \<le> \<sigma> / 2 ^ 50 + 8 * denormal_half"
proof -
  note eta = denormal_half_nonneg denormal_half_le_one large_pow2_1022 large_pow2_1022
  have "\<bar>\<sigma> - p\<bar> \<le> pow2 1022 * (5 / 4) + 1"
    using assms eta by argo
  from round_double_near [OF this]
  obtain d where d: "round_double (\<sigma> - p) = Num d"
    "\<bar>d - (\<sigma> - p)\<bar> \<le> \<bar>\<sigma> - p\<bar> / 9007199254740992 + denormal_half"
    by blast
  have "\<bar>p + d\<bar> \<le> pow2 1022 * (5 / 4) + 1"
    using assms d(2) eta by argo
  from round_double_near [OF this]
  obtain r where r: "round_double (p + d) = Num r"
    "\<bar>r - (p + d)\<bar> \<le> \<bar>p + d\<bar> / 9007199254740992 + denormal_half"
    by blast
  have "\<bar>r - \<sigma>\<bar> \<le> \<sigma> / 1125899906842624 + 8 * denormal_half"
    using assms d(2) r(2) eta by argo
  then have "\<bar>r - \<sigma>\<bar> \<le> \<sigma> / 2 ^ 50 + 8 * denormal_half" by simp
  with d(1) r(1) show ?thesis using that by blast
qed

lemma round_trip_beyond_bound:
  assumes "0 \<le> p" and "0 \<le> l" and "round_double (p + l) = Num T" and "T \<le> pow2 1022"
  obtains t ls r where "round_double (T - l) = Num t" "round_double (T - t) = Num ls"
    "round_double (p + ls) = Num r" "\<bar>r - T\<bar> \<le> T / 2 ^ 50 + 8 * denormal_half"
proof -
  note eta = denormal_half_nonneg denormal_half_le_one large_pow2_1022
  define B where "B = T / 4503599627370496 + 2 * denormal_half"
  define A where "A = p + l"
  have A0: "0 \<le> A" "p \<le> A" "l \<le> A" using assms(1,2) by (simp_all add: A_def)
  have T0: "0 \<le> T"
    using round_double_nonneg [of "p + l"] assms(1,2,3) by auto
  have "\<bar>T - A\<bar> \<le> \<bar>A\<bar> / 9007199254740992 + denormal_half"
    using round_double_error [OF assms(3)] by (simp add: A_def)
  then have e0: "T - A \<le> A / 9007199254740992 + denormal_half"
    "A - T \<le> A / 9007199254740992 + denormal_half"
    using A0(1) by linarith+
  have A1: "A \<le> T + B"
    using e0(2) T0 eta(1) unfolding B_def by argo
  have b0: "T - A \<le> B" "A - T \<le> B"
    using e0 A1 T0 eta(1) unfolding B_def by argo+
  have B1: "B \<le> T / 64 + 2" "0 \<le> B"
    using T0 eta(1,2) unfolding B_def by argo+
  have m1: "\<bar>T - l\<bar> \<le> T + 2 * B"
    using A0 A1 b0 T0 B1(2) assms(1,2) by linarith
  have "\<bar>T - l\<bar> \<le> pow2 1022 * (5 / 4) + 1"
    using m1 B1 assms(4) eta(3) T0 by argo
  from round_double_near [OF this]
  obtain t where t: "round_double (T - l) = Num t"
    "\<bar>t - (T - l)\<bar> \<le> \<bar>T - l\<bar> / 9007199254740992 + denormal_half"
    by blast
  have "\<bar>t - (T - l)\<bar> \<le> B"
    using t(2) m1 B1(2) T0 eta(1) unfolding B_def by argo
  then have b1: "t - (T - l) \<le> B" "(T - l) - t \<le> B" by linarith+
  have m2: "\<bar>T - t\<bar> \<le> T + 2 * B"
    using A0 A1 b0 b1 T0 B1(2) assms(1,2) by linarith
  have "\<bar>T - t\<bar> \<le> pow2 1022 * (5 / 4) + 1"
    using m2 B1 assms(4) eta(3) T0 by argo
  from round_double_near [OF this]
  obtain ls where ls: "round_double (T - t) = Num ls"
    "\<bar>ls - (T - t)\<bar> \<le> \<bar>T - t\<bar> / 9007199254740992 + denormal_half"
    by blast
  have "\<bar>ls - (T - t)\<bar> \<le> B"
    using ls(2) m2 B1(2) T0 eta(1) unfolding B_def by argo
  then have b2: "ls - (T - t) \<le> B" "(T - t) - ls \<le> B" by linarith+
  have m3: "\<bar>p + ls\<bar> \<le> T + 3 * B"
    using A0 A1 b0 b1 b2 T0 B1(2) assms(1,2) unfolding A_def by linarith
  have "\<bar>p + ls\<bar> \<le> pow2 1022 * (5 / 4) + 1"
    using m3 B1 assms(4) eta(3) T0 by argo
  from round_double_near [OF this]
  obtain r where r: "round_double (p + ls) = Num r"
    "\<bar>r - (p + ls)\<bar> \<le> \<bar>p + ls\<bar> / 9007199254740992 + denormal_half"
    by blast
  have "\<bar>r - (p + ls)\<bar> \<le> B"
    using r(2) m3 B1(2) T0 eta(1) unfolding B_def by argo
  then have b3: "r - (p + ls) \<le> B" "(p + ls) - r \<le> B" by linarith+
  have "\<bar>r - T\<bar> \<le> 4 * B"
    using b0 b1 b2 b3 unfolding A_def by linarith
  then have "\<bar>r - T\<bar> \<le> T / 2 ^ 50 + 8 * denormal_half"
    by (simp add: B_def)
  with t(1) ls(1) r(1) show ?thesis using that by blast
qed

lemma getSInSplineCurve64_loop_eq:
  assumes "i \<le> k" and "k < length (curves64 sp)"
    and "ret = foldl (\<lambda>total len. dadd total len) (Num 0)
                 (take i (map (HermiteCurve_getLength64 g) (curves64 sp)))"
  shows "getSInSplineCurve64_loop g sp k s i ret =
           Inr (dadd (foldl (\<lambda>total len. dadd total len) (Num 0)
                        (take k (map (HermiteCurve_getLength64 g) (curves64 sp)))) s)"
  using assms
proof (induction "k - i" arbitrary: i ret)
  case 0
  then have "i = k" by simp
  with 0 show ?case by (subst getSInSplineCurve64_loop.simps) simp
next
  case (Suc d)
  then have i: "i < k" "i < length (curves64 sp)" "i \<noteq> k" by simp_all
  have d: "d = k - Suc i" using Suc.hyps(2) by simp
  have ret: "dadd ret (HermiteCurve_getLength64 g (curves64 sp ! i))
      = foldl (\<lambda>total len. dadd total len) (Num 0)
          (take (Suc i) (map (HermiteCurve_getLength64 g) (curves64 sp)))"
    using i(2) Suc.prems(3) by (simp add: foldl_take_Suc)
  have "Suc i \<le> k" using i(1) by simp
  from Suc.hyps(1) [OF d this Suc.prems(2) ret] i show ?case
    by (subst getSInSplineCurve64_loop.simps) simp
qed

lemma getSInSplineCurve64_eq:
  assumes "k < length (curves64 sp)"
  shows "getSInSplineCurve64 g sp k s =
           Inr (dadd (foldl (\<lambda>total len. dadd total len) (Num 0)
                        (take k (map (HermiteCurve_getLength64 g) (curves64 sp)))) s)"
  unfolding getSInSplineCurve64_def
  by (rule getSInSplineCurve64_loop_eq) (use assms in simp_all)

lemma dadd_Num_nonneg:
  assumes "dle (Num 0) a" and "dle (Num 0) b" and "dadd a b = Num t"
  obtains p l where "a = Num p" "b = Num l" "0 \<le> p" "0 \<le> l" "round_double (p + l) = Num t"
proof -
  from assms(1) show ?thesis
  proof (cases rule: dle_zero_cases)
    case (num p)
    from assms(2) show ?thesis
    proof (cases rule: dle_zero_cases)
      case num': (num l)
      with num assms(3) that show ?thesis by simp
    next
      case pinf
      with num assms(3) show ?thesis by simp
    qed
  next
    case pinf
    with assms(2,3) show ?thesis
      by (cases rule: dle_zero_cases) simp_all
  qed
qed

lemma CatmullRomSpline64_fields:
  "control_points64 (CatmullRomSpline64 g cps cs) = cps"
  "curves64 (CatmullRomSpline64 g cps cs) = cs"
  "length_list64 (CatmullRomSpline64 g cps cs) = map (HermiteCurve_getLength64 g) cs"
  "total_length64 (CatmullRomSpline64 g cps cs)
     = foldl (\<lambda>total len. dadd total len) (Num 0) (map (HermiteCurve_getLength64 g) cs)"
  by (simp_all add: CatmullRomSpline64_def)

lemma round_double_eval:
  assumes "pow2 e \<le> \<bar>x\<bar>" and "\<bar>x\<bar> < pow2 (e + 1)" and "- 1022 \<le> e" and "e \<le> 1022"
    and "of_int f \<le> x / pow2 (e - 52)" and "x / pow2 (e - 52) < of_int f + 1"
  shows "round_double x =
           Num (of_int (if x / pow2 (e - 52) - of_int f < 1 / 2 then f
                        else if 1 / 2 < x / pow2 (e - 52) - of_int f then f + 1
                        else if even f then f else f + 1) * pow2 (e - 52))"
proof -
  have "pow2 (e + 1) \<le> pow2 1023" using assms(4) by (intro pow2_mono) simp
  with assms(2) have "\<bar>x\<bar> \<le> pow2 1023" by simp
  then have "round_double x = Num (nearest x)" by (rule round_double_nearest)
  then show ?thesis
    by (simp only: nearest_eq [OF assms(1,2,3,5,6)])
qed

lemma uneven_sums:
  "dadd (Num 0) (Num (1 + 1 / 2 ^ 52)) = Num (1 + 1 / 2 ^ 52)"
  "dadd (Num (1 + 1 / 2 ^ 52)) (Num 3) = Num 4"
  "dsub (Num (7 / 2 + 1 / 2 ^ 51)) (Num (1 + 1 / 2 ^ 52)) = Num (5 / 2)"
  "dadd (Num (1 + 1 / 2 ^ 52)) (Num (5 / 2)) = Num (7 / 2)"
proof -
  show "dadd (Num 0) (Num (1 + 1 / 2 ^ 52)) = Num (1 + 1 / 2 ^ 52)"
    by (simp, subst round_double_eval [where e = 0 and f = "2 ^ 52 + 1"])
       (simp_all add: pow2_def)
  show "dadd (Num (1 + 1 / 2 ^ 52)) (Num 3) = Num 4"
    by (simp, subst round_double_eval [where e = 2 and f = "2 ^ 52"])
       (simp_all add: pow2_def)
  show "dsub (Num (7 / 2 + 1 / 2 ^ 51)) (Num (1 + 1 / 2 ^ 52)) = Num (5 / 2)"
    by (simp add: dsub_def, subst round_double_eval [where e = 1 and f = "5 * 2 ^ 50"])
       (simp_all add: pow2_def)
  show "dadd (Num (1 + 1 / 2 ^ 52)) (Num (5 / 2)) = Num (7 / 2)"
    by (simp, subst round_double_eval [where e = 1 and f = "7 * 2 ^ 50"])
       (simp_all add: pow2_def)
qed

lemma uneven_spline_fields:
  "length (control_points64 uneven_spline) = 3"
  "curves64 uneven_spline = [(0, 1 + 1 / 2 ^ 52), (1 + 1 / 2 ^ 52, 3)]"
  "length_list64 uneven_spline = [Num (1 + 1 / 2 ^ 52), Num 3]"
  "total_length64 uneven_spline = Num 4"
  using uneven_sums(1,2)
  by (simp_all add: uneven_spline_def CatmullRomSpline64_def axis_geometry_def)

lemma getPoint_offset64_total:
  assumes "curves64 sp \<noteq> []"
    and "length (length_list64 sp) = length (curves64 sp)"
    and "\<forall>l \<in> set (length_list64 sp). dle (Num 0) l"
    and "total_length64 sp = foldl (\<lambda>total len. dadd total len) (Num 0) (length_list64 sp)"
    and "s \<noteq> NaN"
  shows "\<exists>p. getPoint_offset64 g sp s offset = Inr p"
proof -
  obtain i ls where "i < length (curves64 sp)" "getCurveIndexAndS64 g sp s = Inr (i, ls)"
    using getCurveIndexAndS64_total [OF assms] by blast
  then show ?thesis
    by (simp add: getPoint_offset64_def getNormalVector64_def getPoint64_def Let_def)
qed

lemma step_up_advances:
  assumes "\<bar>s\<bar> \<le> M" and "M \<le> pow2 1023" and "M / 2 ^ 51 + 4 * denormal_half \<le> r"
  shows "dadd (Num s) (Num r) = PInf \<or> (\<exists>y. dadd (Num s) (Num r) = Num y \<and> s + r / 2 \<le> y)"
proof -
  have M: "0 \<le> M" using assms(1) by linarith
  have d: "0 \<le> denormal_half" by simp
  have r: "0 \<le> r"
  proof -
    have "0 \<le> M / 2 ^ 51" using M by simp
    with d assms(3) show ?thesis by linarith
  qed
  show ?thesis
  proof (cases "s + r" rule: round_double_cases)
    case (num y)
    define E where "E = \<bar>s + r\<bar> / 2 ^ 53"
    define A where "A = M / 2 ^ 51"
    define B where "B = r / 2 ^ 53"
    have "\<bar>y - (s + r)\<bar> \<le> E + denormal_half"
      unfolding E_def using num by (rule round_double_error)
    then have e1: "y - (s + r) \<le> E + denormal_half" "- (E + denormal_half) \<le> y - (s + r)"
      by linarith+
    have "\<bar>s + r\<bar> / 2 ^ 53 \<le> (M + r) / 2 ^ 53"
      using assms(1) r by (intro divide_right_mono) auto
    also have "\<dots> = A / 4 + B"
      by (simp add: A_def B_def field_simps)
    finally have e2: "E \<le> A / 4 + B" by (simp add: E_def)
    have e3: "B \<le> r / 4"
      unfolding B_def using r by (intro divide_left_mono) auto
    have e4: "A + 4 * denormal_half \<le> r"
      using assms(3) by (simp add: A_def)
    have "s + r / 2 \<le> y"
      using e1 e2 e3 e4 by linarith
    with num show ?thesis by simp
  next
    case pinf
    then show ?thesis by simp
  next
    case minf
    then have "\<bar>s + r\<bar> \<le> pow2 1023"
      using assms(1,2) r by linarith
    then have "round_double (s + r) = Num (nearest (s + r))"
      by (rule round_double_nearest)
    with minf show ?thesis by simp
  qed
qed

lemma step_down_advances:
  assumes "\<bar>s\<bar> \<le> M" and "M \<le> pow2 1023" and "M / 2 ^ 51 + 4 * denormal_half \<le> r"
  shows "dsub (Num s) (Num r) = MInf \<or> (\<exists>y. dsub (Num s) (Num r) = Num y \<and> y \<le> s - r / 2)"
proof -
  have M: "0 \<le> M" using assms(1) by linarith
  have d: "0 \<le> denormal_half" by simp
  have r: "0 \<le> r"
  proof -
    have "0 \<le> M / 2 ^ 51" using M by simp
    with d assms(3) show ?thesis by linarith
  qed
  have e: "dsub (Num s) (Num r) = round_double (s + - r)"
    by (simp add: dsub_def)
  show ?thesis
  proof (cases "s + - r" rule: round_double_cases)
    case (num y)
    define E where "E = \<bar>s + - r\<bar> / 2 ^ 53"
    define A where "A = M / 2 ^ 51"
    define B where "B = r / 2 ^ 53"
    have "\<bar>y - (s + - r)\<bar> \<le> E + denormal_half"
      unfolding E_def using num by (rule round_double_error)
    then have e1: "y - (s + - r) \<le> E + denormal_half" "- (E + denormal_half) \<le> y - (s + - r)"
      by linarith+
    have "\<bar>s + - r\<bar> / 2 ^ 53 \<le> (M + r) / 2 ^ 53"
      using assms(1) r by (intro divide_right_mono) auto
    also have "\<dots> = A / 4 + B"
      by (simp add: A_def B_def field_simps)
    finally have e2: "E \<le> A / 4 + B" by (simp add: E_def)
    have e3: "B \<le> r / 4"
      unfolding B_def using r by (intro divide_left_mono) auto
    have e4: "A + 4 * denormal_half \<le> r"
      using assms(3) by (simp add: A_def)
    have "y \<le> s - r / 2"
      using e1 e2 e3 e4 by linarith
    with num e show ?thesis by simp
  next
    case minf
    with e show ?thesis by simp
  next
    case pinf
    then have "\<bar>s + - r\<bar> \<le> pow2 1023"
      using assms(1,2) r by linarith
    then have "round_double (s + - r) = Num (nearest (s + - r))"
      by (rule round_double_nearest)
    with pinf show ?thesis by simp
  qed
qed

lemma getTrajectory64_up_returns:
  assumes tot: "\<And>s. s \<noteq> NaN \<Longrightarrow> \<exists>p. getPoint_offset64 g sp s offset = Inr p"
    and M: "\<bar>a\<bar> \<le> M" "\<bar>b\<bar> \<le> M" "M \<le> pow2 1023"
    and r: "M / 2 ^ 51 + 4 * denormal_half \<le> \<bar>r\<bar>" "0 < \<bar>r\<bar>"
    and s: "a \<le> s" "b - s \<le> real n * (\<bar>r\<bar> / 2)"
  shows "\<exists>pts. getTrajectory64_up g sp (Num s) (Num b) (Num r) offset ret = Some (Inr pts)"
  using s
proof (induction n arbitrary: s ret)
  case 0
  then have "\<not> dlt (Num s) (Num b)" by simp
  then show ?case
    by (subst getTrajectory64_up.simps) simp
next
  case (Suc n)
  show ?case
  proof (cases "s < b")
    case False
    then show ?thesis
      by (subst getTrajectory64_up.simps) simp
  next
    case True
    obtain p where p: "getPoint_offset64 g sp (Num s) offset = Inr p"
      using tot [of "Num s"] by auto
    have "\<bar>s\<bar> \<le> M" using True Suc.prems(1) M(1,2) by linarith
    from step_up_advances [OF this M(3) r(1)]
    consider (inf) "dadd (Num s) (Num \<bar>r\<bar>) = PInf"
      | (num) y where "dadd (Num s) (Num \<bar>r\<bar>) = Num y" "s + \<bar>r\<bar> / 2 \<le> y"
      by blast
    then show ?thesis
    proof cases
      case inf
      have "getTrajectory64_up g sp PInf (Num b) (Num r) offset (ret @ [p])
              = Some (Inr (ret @ [p]))"
        by (subst getTrajectory64_up.simps) simp
      with True p inf show ?thesis
        by (subst getTrajectory64_up.simps) simp
    next
      case num
      have "a \<le> y" using num(2) Suc.prems(1) r(2) by linarith
      moreover have "b - y \<le> real n * (\<bar>r\<bar> / 2)"
        using num(2) Suc.prems(2) by (simp add: algebra_simps)
      ultimately obtain pts where
        "getTrajectory64_up g sp (Num y) (Num b) (Num r) offset (ret @ [p]) = Some (Inr pts)"
        using Suc.IH [of y "ret @ [p]"] by blast
      with True p num(1) show ?thesis
        by (subst getTrajectory64_up.simps) simp
    qed
  qed
qed

lemma getTrajectory64_down_returns:
  assumes tot: "\<And>s. s \<noteq> NaN \<Longrightarrow> \<exists>p. getPoint_offset64 g sp s offset = Inr p"
    and M: "\<bar>a\<bar> \<le> M" "\<bar>b\<bar> \<le> M" "M \<le> pow2 1023"
    and r: "M / 2 ^ 51 + 4 * denormal_half \<le> \<bar>r\<bar>" "0 < \<bar>r\<bar>"
    and s: "s \<le> a" "s - b \<le> real n * (\<bar>r\<bar> / 2)"
  shows "\<exists>pts. getTrajectory64_down g sp (Num s) (Num b) (Num r) offset ret = Some (Inr pts)"
  using s
proof (induction n arbitrary: s ret)
  case 0
  then have "\<not> dgt (Num s) (Num b)" by (simp add: dgt_def)
  then show ?case
    by (subst getTrajectory64_down.simps) simp
next
  case (Suc n)
  show ?case
  proof (cases "b < s")
    case False
    then show ?thesis
      by (subst getTrajectory64_down.simps) (simp add: dgt_def)
  next
    case True
    obtain p where p: "getPoint_offset64 g sp (Num s) offset = Inr p"
      using tot [of "Num s"] by auto
    have "\<bar>s\<bar> \<le> M" using True Suc.prems(1) M(1,2) by linarith
    from step_down_advances [OF this M(3) r(1)]
    consider (inf) "dsub (Num s) (Num \<bar>r\<bar>) = MInf"
      | (num) y where "dsub (Num s) (Num \<bar>r\<bar>) = Num y" "y \<le> s - \<bar>r\<bar> / 2"
      by blast
    then show ?thesis
    proof cases
      case inf
      have "getTrajectory64_down g sp MInf (Num b) (Num r) offset (ret @ [p])
              = Some (Inr (ret @ [p]))"
        by (subst getTrajectory64_down.simps) (simp add: dgt_def)
      with True p inf show ?thesis
        by (subst getTrajectory64_down.simps) (simp add: dgt_def)
    next
      case num
      have "y \<le> a" using num(2) Suc.prems(1) r(2) by linarith
      moreover have "y - b \<le> real n * (\<bar>r\<bar> / 2)"
        using num(2) Suc.prems(2) by (simp add: algebra_simps)
      ultimately obtain pts where
        "getTrajectory64_down g sp (Num y) (Num b) (Num r) offset (ret @ [p]) = Some (Inr pts)"
        using Suc.IH [of y "ret @ [p]"] by blast
      with True p num(1) show ?thesis
        by (subst getTrajectory64_down.simps) (simp add: dgt_def)
    qed
  qed
qed

lemma getTrajectory64_up_never_returns:
  assumes "getTrajectory64_up g sp s end_s resolution offset ret = Some y"
  shows "\<not> (dlt s end_s \<and> dadd s (dabs resolution) = s
            \<and> (\<exists>p. getPoint_offset64 g sp s offset = Inr p))"
  by (rule getTrajectory64_up.raw_induct
        [where P = "\<lambda>g sp s end_s resolution offset ret y.
           \<not> (dlt s end_s \<and> dadd s (dabs resolution) = s
               \<and> (\<exists>p. getPoint_offset64 g sp s offset = Inr p))",
         OF _ assms])
     (auto split: if_splits sum.splits)

lemma denormal_half_pos: "0 < denormal_half"
  by (simp add: denormal_half_def)

lemma denormal_half_small: "denormal_half \<le> 1 / 16"
proof -
  have "pow2 (- 1075) \<le> pow2 (- 4)" by (rule pow2_mono) simp
  then show ?thesis by (simp add: denormal_half_def pow2_def)
qed

lemma getTrajectory64_absorbed:
  assumes "dlt start_s end_s" and "dadd start_s (dabs resolution) = start_s"
    and "\<exists>p. getPoint_offset64 g sp start_s offset = Inr p"
  shows "getTrajectory64 g sp start_s end_s resolution offset = None"
proof -
  have "getTrajectory64_up g sp start_s end_s resolution offset [] = None"
    using getTrajectory64_up_never_returns [of g sp start_s end_s resolution offset "[]"] assms
    by (cases "getTrajectory64_up g sp start_s end_s resolution offset []") auto
  moreover have "\<not> dgt start_s end_s"
    using assms(1) by (cases start_s; cases end_s) (simp_all add: dgt_def)
  ultimately show ?thesis
    by (simp add: getTrajectory64_def getTrajectory64_finish_def)
qed

lemma unit_spline_points:
  assumes "s \<noteq> NaN"
  shows "\<exists>p. getPoint_offset64 axis_geometry unit_spline s offset = Inr p"
  by (rule getPoint_offset64_total)
     (simp_all add: unit_spline_fields unit_spline_total round_double_small_nat dle_def assms)

lemma pow2_1000:
  "pow2 1023 = 8388608 * pow2 1000" "2 ^ 66 \<le> pow2 1000"
proof -
  have "pow2 1023 = pow2 (23 + 1000)" by simp
  also have "\<dots> = pow2 23 * pow2 1000" by (rule pow2_add)
  finally show "pow2 1023 = 8388608 * pow2 1000" by (simp add: pow2_def)
  have "pow2 66 \<le> pow2 1000" by (rule pow2_mono) simp
  then show "2 ^ 66 \<le> pow2 1000" by (simp add: pow2_def)
qed

lemma denormal_half_tiny: "denormal_half \<le> 1 / 2 ^ 53"
proof -
  have "pow2 (- 1075) \<le> pow2 (- 53)" by (rule pow2_mono) simp
  then show ?thesis by (simp add: denormal_half_def pow2_def)
qed

lemma double_of_nat_near:
  assumes "k < 2 ^ 64"
  obtains d where "double_of_nat k = Num d" "\<bar>d - real k\<bar> \<le> real k / 2 ^ 52"
proof (cases "k = 0")
  case True
  then have "double_of_nat k = Num 0" by (simp add: double_of_nat_def round_double_def)
  with True that show ?thesis by simp
next
  case False
  then have k1: "1 \<le> real k" by simp
  have "real k < 2 ^ 64" using assms by (metis of_nat_less_iff of_nat_numeral of_nat_power)
  moreover have "(2 :: real) ^ 66 \<le> pow2 1023" using pow2_1000 by simp
  ultimately have "\<bar>real k\<bar> \<le> pow2 1023" by simp
  then obtain r where r: "round_double (real k) = Num r"
    "\<bar>r - real k\<bar> \<le> \<bar>real k\<bar> / 2 ^ 53 + denormal_half"
    by (rule round_double_Num)
  have "denormal_half \<le> real k / 2 ^ 53"
  proof -
    have "(1 :: real) / 2 ^ 53 \<le> real k / 2 ^ 53"
      using k1 by (intro divide_right_mono) simp_all
    with denormal_half_tiny show ?thesis by linarith
  qed
  moreover have "real k / 2 ^ 52 = real k / 2 ^ 53 + real k / 2 ^ 53" by simp
  ultimately have "\<bar>r - real k\<bar> \<le> real k / 2 ^ 52"
    using r(2) by simp
  with r(1) that show ?thesis by (simp add: double_of_nat_def)
qed

lemma sample_near:
  assumes n: "1 \<le> n" "n < 2 ^ 64" and i: "i \<le> n" and L: "0 \<le> L" "L \<le> pow2 1000"
  obtains \<sigma> where "dmul (ddiv (Num L) (double_of_nat n)) (double_of_nat i) = Num \<sigma>"
    "\<bar>\<sigma> - L * real i / real n\<bar> \<le> L * real i / real n / 2 ^ 48 + 4 * real i * denormal_half"
    "0 \<le> \<sigma>"
proof -
  define q where "q = L / real n"
  have n1: "1 \<le> real n" using n(1) by simp
  have q0: "0 \<le> q" using L(1) by (simp add: q_def)
  have qL: "q \<le> L"
  proof -
    have "L / real n \<le> L / 1" using n1 L(1) by (intro divide_left_mono) simp_all
    then show ?thesis by (simp add: q_def)
  qed
  have dh: "0 \<le> denormal_half" "denormal_half \<le> 1" 
    using denormal_half_le_one by simp_all
  obtain dn where dn: "double_of_nat n = Num dn" "\<bar>dn - real n\<bar> \<le> real n / 2 ^ 52"
    using double_of_nat_near [OF n(2)] by blast
  have i64: "i < 2 ^ 64" using i n(2) by simp
  obtain di where di: "double_of_nat i = Num di" "\<bar>di - real i\<bar> \<le> real i / 2 ^ 52"
    using double_of_nat_near [OF i64] by blast
  have "real n / 2 ^ 52 \<le> real n / 2" by (intro divide_left_mono) simp_all
  with dn(2) have dn_lo: "real n / 2 \<le> dn" by linarith
  with n1 have dn_pos: "0 < dn" by linarith
  have "real i / 2 ^ 52 \<le> real i" by (simp add: field_simps)
  with di(2) have di_b: "0 \<le> di" "di \<le> 2 * real i"
  proof -
    have "real i / 2 ^ 52 \<le> real i / 1" by (intro divide_left_mono) simp_all
    then have "real i / 2 ^ 52 \<le> real i" by simp
    with di(2) show "0 \<le> di" "di \<le> 2 * real i" by linarith+
  qed
  text \<open>The quotient.\<close>
  define p where "p = L / dn"
  have p0: "0 \<le> p" using L(1) dn_pos by (simp add: p_def)
  have pq: "\<bar>p - q\<bar> \<le> q / 2 ^ 51"
  proof -
    have "p - q = L * (real n - dn) / (real n * dn)"
      using n1 dn_pos by (simp add: p_def q_def field_simps)
    then have "\<bar>p - q\<bar> = L * \<bar>real n - dn\<bar> / (real n * dn)"
      using L(1) n1 dn_pos by (simp add: abs_mult)
    also have "\<dots> \<le> L * (real n / 2 ^ 52) / (real n * dn)"
      using dn(2) L(1) n1 dn_pos
      by (intro divide_right_mono mult_left_mono) (simp_all add: abs_minus_commute)
    also have "\<dots> = L / 2 ^ 52 / dn"
      using n1 by simp
    also have "\<dots> \<le> L / 2 ^ 52 / (real n / 2)"
      using dn_lo n1 L(1) by (intro divide_left_mono) (simp_all add: dn_pos)
    also have "\<dots> = q / 2 ^ 51"
      by (simp add: q_def)
    finally show ?thesis .
  qed
  have "q / 2 ^ 51 \<le> q / 1" using q0 by (intro divide_left_mono) simp_all
  then have q51: "q / 2 ^ 51 \<le> q" by simp
  with pq have p2: "p \<le> 2 * q" by linarith
  have "\<bar>p\<bar> \<le> pow2 1023"
    using p0 p2 qL L(2) pow2_1000(1) by simp
  then obtain st where st: "round_double p = Num st"
    "\<bar>st - p\<bar> \<le> \<bar>p\<bar> / 2 ^ 53 + denormal_half"
    by (rule round_double_Num)
  have st0: "0 \<le> st"
    using round_double_nonneg [OF p0] st(1) by auto
  have step: "ddiv (Num L) (double_of_nat n) = Num st"
    using dn(1) dn_pos st(1) by (simp add: p_def)
  define E where "E = q / 2 ^ 50 + denormal_half"
  have stq: "\<bar>st - q\<bar> \<le> E"
  proof -
    have "\<bar>p\<bar> / 2 ^ 53 \<le> 2 * q / 2 ^ 53"
      using p0 p2 by (intro divide_right_mono) simp_all
    then have "\<bar>p\<bar> / 2 ^ 53 \<le> q / 2 ^ 52" by simp
    moreover have "q / 2 ^ 50 = q / 2 ^ 51 + q / 2 ^ 52 + q / 2 ^ 52" by simp
    moreover have "0 \<le> q / 2 ^ 52" using q0 by simp
    ultimately show ?thesis
      using st(2) pq unfolding E_def by linarith
  qed
  have "q / 2 ^ 50 \<le> q / 1" using q0 by (intro divide_left_mono) simp_all
  then have E_le: "E \<le> q + denormal_half" by (simp add: E_def)
  have E0: "0 \<le> E" using q0 by (simp add: E_def)
  text \<open>The product.\<close>
  define m where "m = st * di"
  define t where "t = q * real i"
  have t0: "0 \<le> t" using q0 by (simp add: t_def)
  have m0: "0 \<le> m" using st0 di_b(1) by (simp add: m_def)
  have mt: "\<bar>m - t\<bar> \<le> t / 2 ^ 49 + t / 2 ^ 52 + 2 * real i * denormal_half"
  proof -
    have "m - t = (st - q) * di + q * (di - real i)"
      by (simp add: m_def t_def algebra_simps)
    then have "\<bar>m - t\<bar> \<le> \<bar>st - q\<bar> * di + q * \<bar>di - real i\<bar>"
      using abs_triangle_ineq [of "(st - q) * di" "q * (di - real i)"] di_b(1) q0
      by (simp add: abs_mult)
    also have "\<dots> \<le> E * (2 * real i) + q * (real i / 2 ^ 52)"
      using stq di_b di(2) q0 E0
      by (intro add_mono mult_mono) simp_all
    also have "\<dots> = t / 2 ^ 49 + t / 2 ^ 52 + 2 * real i * denormal_half"
      by (simp add: E_def t_def algebra_simps)
    finally show ?thesis .
  qed
  have tL: "t \<le> L"
  proof -
    have "q * real i \<le> q * real n" using i q0 by (intro mult_left_mono) simp_all
    also have "\<dots> = L" using n1 by (simp add: q_def)
    finally show ?thesis by (simp add: t_def)
  qed
  have t49: "t / 2 ^ 49 \<le> t / 2" using t0 by (intro divide_left_mono) simp_all
  have t52: "t / 2 ^ 52 \<le> t / 2" using t0 by (intro divide_left_mono) simp_all
  have ih: "0 \<le> real i * denormal_half" by simp
  have m2: "m \<le> 2 * t + 2 * real i * denormal_half"
    using mt t49 t52 by linarith
  have i66: "real i * denormal_half \<le> 2 ^ 64"
  proof -
    have "real i < 2 ^ 64" using i64 by (metis of_nat_less_iff of_nat_numeral of_nat_power)
    then have "real i * denormal_half \<le> 2 ^ 64 * 1"
      using dh by (intro mult_mono) simp_all
    then show ?thesis by simp
  qed
  have "\<bar>m\<bar> \<le> pow2 1023"
    using m0 m2 tL L(2) i66 pow2_1000 by simp
  then obtain \<sigma> where \<sigma>: "round_double m = Num \<sigma>"
    "\<bar>\<sigma> - m\<bar> \<le> \<bar>m\<bar> / 2 ^ 53 + denormal_half"
    by (rule round_double_Num)
  have s0: "0 \<le> \<sigma>"
    using round_double_nonneg [OF m0] \<sigma>(1) by auto
  have res: "dmul (ddiv (Num L) (double_of_nat n)) (double_of_nat i) = Num \<sigma>"
    using step di(1) \<sigma>(1) by (simp add: m_def)
  have bound: "\<bar>\<sigma> - t\<bar> \<le> t / 2 ^ 48 + 4 * real i * denormal_half"
  proof (cases "i = 0")
    case True
    then have "di = 0" using di(2) by simp
    then have "m = 0" by (simp add: m_def)
    then have "\<sigma> = 0" using \<sigma>(1) by (simp add: round_double_def)
    with True show ?thesis by (simp add: t_def)
  next
    case False
    then have "1 \<le> real i" by simp
    then have "1 * denormal_half \<le> real i * denormal_half"
      using dh(1) by (rule mult_right_mono)
    then have i1: "denormal_half \<le> real i * denormal_half" by simp
    have "\<bar>m\<bar> / 2 ^ 53 \<le> (2 * t + 2 * real i * denormal_half) / 2 ^ 53"
      using m0 m2 by (intro divide_right_mono) simp_all
    also have "\<dots> = t / 2 ^ 52 + real i * denormal_half / 2 ^ 52"
      by (simp add: field_simps)
    finally have a: "\<bar>m\<bar> / 2 ^ 53 \<le> t / 2 ^ 52 + real i * denormal_half / 2 ^ 52" .
    have "real i * denormal_half / 2 ^ 52 \<le> real i * denormal_half / 1"
      using ih by (intro divide_left_mono) simp_all
    then have b: "real i * denormal_half / 2 ^ 52 \<le> real i * denormal_half" by simp
    have c: "t / 2 ^ 48 = t / 2 ^ 49 + t / 2 ^ 52 + t / 2 ^ 52 + 6 * (t / 2 ^ 52)" by simp
    have d: "0 \<le> t / 2 ^ 52" using t0 by simp
    show ?thesis
      using \<sigma>(2) mt a b c d i1 by linarith
  qed
  have "t = L * real i / real n" by (simp add: t_def q_def)
  with bound res s0 that show ?thesis by simp
qed

lemma pow2_1000_ge_one: "1 \<le> pow2 1000"
proof -
  have "pow2 0 \<le> pow2 1000" by (rule pow2_mono) simp
  then show ?thesis by (simp add: pow2_def)
qed

lemma half_width_product:
  assumes w: "\<bar>w\<bar> \<le> pow2 1000" and c: "\<bar>c - C\<bar> \<le> \<epsilon>" "\<bar>C\<bar> \<le> 1" "\<epsilon> \<le> 1"
  obtains a where "dmul (dmul (Num 0.5) (Num w)) (Num c) = Num a"
    "\<bar>a - w / 2 * C\<bar> \<le> \<bar>w\<bar> * \<epsilon> / 2 + 3 * \<bar>w\<bar> / 2 ^ 53 + 4 * denormal_half"
    "\<bar>a\<bar> \<le> 3 * \<bar>w\<bar> + 4 * denormal_half"
proof -
  define W where "W = \<bar>w\<bar>"
  define D where "D = denormal_half"
  have D: "0 \<le> D" "D \<le> 1" using denormal_half_le_one by (simp_all add: D_def)
  have W0: "0 \<le> W" by (simp add: W_def)
  have WB: "W \<le> pow2 1000" using w by (simp add: W_def)
  have big: "1 \<le> pow2 1000" "pow2 1023 = 8388608 * pow2 1000"
    using pow2_1000_ge_one pow2_1000(1) by simp_all
  have e0: "0 \<le> \<epsilon>" using c(1) by linarith
  have c2: "\<bar>c\<bar> \<le> 2" using c by linarith
  text \<open>Half the width.\<close>
  have "\<bar>w / 2\<bar> \<le> pow2 1023" using WB big by (simp add: W_def)
  then obtain h where h: "round_double (w / 2) = Num h"
    "\<bar>h - w / 2\<bar> \<le> \<bar>w / 2\<bar> / 2 ^ 53 + denormal_half"
    by (rule round_double_Num)
  have "\<bar>w / 2\<bar> / 2 ^ 53 = W / 2 ^ 54" by (simp add: W_def)
  with h(2) have eh: "\<bar>h - w / 2\<bar> \<le> W / 2 ^ 54 + D" by (simp add: D_def)
  have w2: "\<bar>w / 2\<bar> = W / 2" by (simp add: W_def)
  have "W / 2 ^ 54 \<le> W / 2" using W0 by (intro divide_left_mono) simp_all
  with eh w2 have hb: "\<bar>h\<bar> \<le> W + D" by linarith
  text \<open>Its product with the cosine, or the sine.\<close>
  have hc: "\<bar>h * c\<bar> \<le> 2 * W + 2 * D"
  proof -
    have "\<bar>h\<bar> * \<bar>c\<bar> \<le> (W + D) * 2"
      using hb c2 W0 D(1) by (intro mult_mono) simp_all
    then show ?thesis by (simp add: abs_mult)
  qed
  then have "\<bar>h * c\<bar> \<le> pow2 1023" using WB D(2) big by linarith
  then obtain a where a: "round_double (h * c) = Num a"
    "\<bar>a - h * c\<bar> \<le> \<bar>h * c\<bar> / 2 ^ 53 + D"
    unfolding D_def by (rule round_double_Num)
  have "\<bar>h * c\<bar> / 2 ^ 53 \<le> (2 * W + 2 * D) / 2 ^ 53"
    using hc by (intro divide_right_mono) simp_all
  also have "\<dots> = W / 2 ^ 52 + D / 2 ^ 52" by (simp add: field_simps)
  finally have "\<bar>h * c\<bar> / 2 ^ 53 \<le> W / 2 ^ 52 + D / 2 ^ 52" .
  moreover have "D / 2 ^ 52 \<le> D / 1" using D(1) by (intro divide_left_mono) simp_all
  ultimately have ea: "\<bar>a - h * c\<bar> \<le> W / 2 ^ 52 + 2 * D"
    using a(2) by linarith
  have e1: "\<bar>h * c - w / 2 * c\<bar> \<le> W / 2 ^ 53 + 2 * D"
  proof -
    have "\<bar>h * c - w / 2 * c\<bar> = \<bar>h - w / 2\<bar> * \<bar>c\<bar>"
      by (simp add: abs_mult [symmetric] algebra_simps)
    also have "\<dots> \<le> (W / 2 ^ 54 + D) * 2"
      using eh c2 W0 D(1) by (intro mult_mono) simp_all
    also have "\<dots> = W / 2 ^ 53 + 2 * D" by simp
    finally show ?thesis .
  qed
  have e2: "\<bar>w / 2 * c - w / 2 * C\<bar> \<le> W * \<epsilon> / 2"
  proof -
    have "w / 2 * c - w / 2 * C = w / 2 * (c - C)"
      by (simp only: right_diff_distrib)
    then have "\<bar>w / 2 * c - w / 2 * C\<bar> = \<bar>w / 2\<bar> * \<bar>c - C\<bar>"
      by (simp only: abs_mult)
    also have "\<dots> = W / 2 * \<bar>c - C\<bar>"
      by (simp only: w2)
    also have "\<dots> \<le> W / 2 * \<epsilon>"
      using c(1) W0 by (intro mult_left_mono) simp_all
    finally show ?thesis by simp
  qed
  have "W / 2 ^ 52 = 2 * (W / 2 ^ 53)" by simp
  then have r1: "\<bar>a - w / 2 * C\<bar> \<le> W * \<epsilon> / 2 + 3 * W / 2 ^ 53 + 4 * D"
    using ea e1 e2 by linarith
  have "W / 2 ^ 52 \<le> W / 1" using W0 by (intro divide_left_mono) simp_all
  then have r2: "\<bar>a\<bar> \<le> 3 * W + 4 * D"
    using ea hc by linarith
  have "dmul (dmul (Num 0.5) (Num w)) (Num c) = Num a"
    using h(1) a(1) by simp
  with r1 r2 that show ?thesis by (simp add: W_def D_def)
qed

lemma bound_coordinates:
  assumes p: "\<bar>px\<bar> \<le> P" "P \<le> pow2 1000"
    and w: "\<bar>w\<bar> \<le> pow2 1000" and c: "\<bar>c - C\<bar> \<le> \<epsilon>" "\<bar>C\<bar> \<le> 1" "\<epsilon> \<le> 1"
  obtains xl xr where
    "dsub (Num px) (dmul (dmul (Num 0.5) (Num w)) (Num c)) = Num xl"
    "dadd (Num px) (dmul (dmul (Num 0.5) (Num w)) (Num c)) = Num xr"
    "\<bar>xl - (px - w / 2 * C)\<bar> \<le> \<bar>w\<bar> * \<epsilon> / 2 + (P + 4 * \<bar>w\<bar>) / 2 ^ 52 + 6 * denormal_half"
    "\<bar>xr - (px + w / 2 * C)\<bar> \<le> \<bar>w\<bar> * \<epsilon> / 2 + (P + 4 * \<bar>w\<bar>) / 2 ^ 52 + 6 * denormal_half"
proof -
  define W where "W = \<bar>w\<bar>"
  define D where "D = denormal_half"
  define T where "T = W * \<epsilon> / 2"
  have D: "0 \<le> D" "D \<le> 1" using denormal_half_le_one by (simp_all add: D_def)
  have W0: "0 \<le> W" by (simp add: W_def)
  have P0: "0 \<le> P" using p(1) by linarith
  have WB: "W \<le> pow2 1000" using w by (simp add: W_def)
  have big: "1 \<le> pow2 1000" "pow2 1023 = 8388608 * pow2 1000"
    using pow2_1000_ge_one pow2_1000(1) by simp_all
  obtain a where a: "dmul (dmul (Num 0.5) (Num w)) (Num c) = Num a"
    "\<bar>a - w / 2 * C\<bar> \<le> T + 3 * W / 2 ^ 53 + 4 * D"
    "\<bar>a\<bar> \<le> 3 * W + 4 * D"
    using half_width_product [OF w c] unfolding W_def D_def T_def by blast
  have sum: "\<bar>px + a\<bar> \<le> P + 3 * W + 4 * D" "\<bar>px + - a\<bar> \<le> P + 3 * W + 4 * D"
    using p(1) a(3) by linarith+
  have q: "(P + 3 * W + 4 * D) / 2 ^ 53 \<le> P / 2 ^ 53 + 3 * W / 2 ^ 53 + D"
  proof -
    have "4 * D / 2 ^ 53 \<le> D / 1" using D(1) by (simp add: field_simps)
    moreover have "(P + 3 * W + 4 * D) / 2 ^ 53 = P / 2 ^ 53 + 3 * W / 2 ^ 53 + 4 * D / 2 ^ 53"
      by (simp add: add_divide_distrib)
    ultimately show ?thesis by simp
  qed
  have fin: "(P + 4 * W) / 2 ^ 52 = 2 * (P / 2 ^ 53) + 8 * (W / 2 ^ 53)"
    by (simp add: field_simps)
  have nn: "0 \<le> P / 2 ^ 53" "0 \<le> W / 2 ^ 53" using P0 W0 by simp_all
  have "\<bar>px + a\<bar> \<le> pow2 1023" using sum(1) p(2) WB D(2) big by linarith
  then obtain xr where xr: "round_double (px + a) = Num xr"
    "\<bar>xr - (px + a)\<bar> \<le> \<bar>px + a\<bar> / 2 ^ 53 + D"
    unfolding D_def by (rule round_double_Num)
  have "\<bar>px + a\<bar> / 2 ^ 53 \<le> (P + 3 * W + 4 * D) / 2 ^ 53"
    using sum(1) by (intro divide_right_mono) simp_all
  with q xr(2) have er: "\<bar>xr - (px + a)\<bar> \<le> P / 2 ^ 53 + 3 * W / 2 ^ 53 + 2 * D"
    by linarith
  have br: "\<bar>xr - (px + w / 2 * C)\<bar> \<le> T + (P + 4 * W) / 2 ^ 52 + 6 * D"
    using er a(2) fin nn by linarith
  have "\<bar>px + - a\<bar> \<le> pow2 1023" using sum(2) p(2) WB D(2) big by linarith
  then obtain xl where xl: "round_double (px + - a) = Num xl"
    "\<bar>xl - (px + - a)\<bar> \<le> \<bar>px + - a\<bar> / 2 ^ 53 + D"
    unfolding D_def by (rule round_double_Num)
  have "\<bar>px + - a\<bar> / 2 ^ 53 \<le> (P + 3 * W + 4 * D) / 2 ^ 53"
    using sum(2) by (intro divide_right_mono) simp_all
  with q xl(2) have el: "\<bar>xl - (px + - a)\<bar> \<le> P / 2 ^ 53 + 3 * W / 2 ^ 53 + 2 * D"
    by linarith
  have bl: "\<bar>xl - (px - w / 2 * C)\<bar> \<le> T + (P + 4 * W) / 2 ^ 52 + 6 * D"
    using el a(2) fin nn by linarith
  have "dadd (Num px) (dmul (dmul (Num 0.5) (Num w)) (Num c)) = Num xr"
    using a(1) xr(1) by simp
  moreover have "dsub (Num px) (dmul (dmul (Num 0.5) (Num w)) (Num c)) = Num xl"
    using a(1) xl(1) by (simp add: dsub_def)
  ultimately show ?thesis
    using that [of xl xr] bl br unfolding W_def D_def T_def by blast
qed

lemma bound_distance:
  assumes "\<bar>xl - (px - w / 2 * cos t)\<bar> \<le> \<tau>" and "\<bar>xr - (px + w / 2 * cos t)\<bar> \<le> \<tau>"
    and "\<bar>yl - (py - w / 2 * sin t)\<bar> \<le> \<tau>" and "\<bar>yr - (py + w / 2 * sin t)\<bar> \<le> \<tau>"
  shows "\<bar>sqrt ((xr - xl)\<^sup>2 + (yr - yl)\<^sup>2 + (z - z)\<^sup>2) - \<bar>w\<bar>\<bar> \<le> 4 * \<tau>"
proof -
  define ex where "ex = (xr - xl) - w * cos t"
  define ey where "ey = (yr - yl) - w * sin t"
  have ex: "\<bar>ex\<bar> \<le> 2 * \<tau>" using assms(1,2) unfolding ex_def by linarith
  have ey: "\<bar>ey\<bar> \<le> 2 * \<tau>" using assms(3,4) unfolding ey_def by linarith
  have u: "sqrt ((w * cos t)\<^sup>2 + (w * sin t)\<^sup>2) = \<bar>w\<bar>"
  proof -
    have "(w * cos t)\<^sup>2 + (w * sin t)\<^sup>2 = w\<^sup>2 * (cos t)\<^sup>2 + w\<^sup>2 * (sin t)\<^sup>2"
      by (simp only: power_mult_distrib)
    also have "\<dots> = w\<^sup>2 * ((cos t)\<^sup>2 + (sin t)\<^sup>2)"
      by (rule distrib_left [symmetric])
    also have "\<dots> = w\<^sup>2" by simp
    finally show ?thesis by simp
  qed
  have e: "sqrt (ex\<^sup>2 + ey\<^sup>2) \<le> 4 * \<tau>"
    using sqrt_sum_squares_le_sum_abs [of ex ey] ex ey by linarith
  have e': "sqrt ((- ex)\<^sup>2 + (- ey)\<^sup>2) \<le> 4 * \<tau>"
    using e by simp
  have d: "xr - xl = w * cos t + ex" "yr - yl = w * sin t + ey"
    by (simp_all add: ex_def ey_def)
  have up: "sqrt ((xr - xl)\<^sup>2 + (yr - yl)\<^sup>2) \<le> \<bar>w\<bar> + 4 * \<tau>"
    using real_sqrt_sum_squares_triangle_ineq [of "w * cos t" ex "w * sin t" ey] u e
    unfolding d by linarith
  have "w * cos t = (xr - xl) + - ex" "w * sin t = (yr - yl) + - ey"
    by (simp_all add: ex_def ey_def)
  then have "sqrt ((w * cos t)\<^sup>2 + (w * sin t)\<^sup>2)
      = sqrt (((xr - xl) + - ex)\<^sup>2 + ((yr - yl) + - ey)\<^sup>2)" by simp
  also have "\<dots> \<le> sqrt ((xr - xl)\<^sup>2 + (yr - yl)\<^sup>2) + sqrt ((- ex)\<^sup>2 + (- ey)\<^sup>2)"
    by (rule real_sqrt_sum_squares_triangle_ineq)
  finally have lo: "\<bar>w\<bar> \<le> sqrt ((xr - xl)\<^sup>2 + (yr - yl)\<^sup>2) + 4 * \<tau>"
    using u e' by linarith
  show ?thesis using up lo by simp
qed

lemma emplace_each_total:
  assumes "\<forall>i \<in> set is. \<exists>p. f i = Inr p"
  shows "emplace_each f is = Inr (map (\<lambda>i. projr (f i)) is)"
  using assms by (induction "is") auto

lemma bound_points64:
  assumes p: "getPoint64 g sp s = Inr \<lparr>x64 = Num px, y64 = Num py, z64 = Num pz\<rparr>"
    and v: "getNormalVector64 g sp s = Inr v" "std_atan2 g (y64 v) (x64 v) = Num \<theta>"
    and c: "std_cos g (Num \<theta>) = Num c" "\<bar>c - cos \<theta>\<bar> \<le> \<epsilon>"
    and s: "std_sin g (Num \<theta>) = Num sn" "\<bar>sn - sin \<theta>\<bar> \<le> \<epsilon>"
    and e: "\<epsilon> \<le> 1"
    and b: "\<bar>px\<bar> \<le> P" "\<bar>py\<bar> \<le> P" "\<bar>pz\<bar> \<le> P" "P \<le> pow2 1000"
      "\<bar>w\<bar> \<le> pow2 1000" "\<bar>z\<bar> \<le> pow2 1000"
    and t: "\<tau> = \<bar>w\<bar> * \<epsilon> / 2 + (P + 4 * \<bar>w\<bar>) / 2 ^ 52 + 6 * denormal_half"
  shows "\<exists>xl yl zl xr yr zr.
           left_bound_point64 g sp (Num w) s (Num z)
             = Inr \<lparr>x64 = Num xl, y64 = Num yl, z64 = Num zl\<rparr>
         \<and> right_bound_point64 g sp (Num w) s (Num z)
             = Inr \<lparr>x64 = Num xr, y64 = Num yr, z64 = Num zr\<rparr>
         \<and> \<bar>xl - (px - w / 2 * cos \<theta>)\<bar> \<le> \<tau> \<and> \<bar>yl - (py - w / 2 * sin \<theta>)\<bar> \<le> \<tau>
         \<and> \<bar>xr - (px + w / 2 * cos \<theta>)\<bar> \<le> \<tau> \<and> \<bar>yr - (py + w / 2 * sin \<theta>)\<bar> \<le> \<tau>
         \<and> zl = zr \<and> \<bar>zl - (pz + z)\<bar> \<le> \<bar>pz + z\<bar> / 2 ^ 53 + denormal_half
         \<and> \<bar>sqrt ((xr - xl)\<^sup>2 + (yr - yl)\<^sup>2 + (zr - zl)\<^sup>2) - \<bar>w\<bar>\<bar> \<le> 4 * \<tau>"
proof -
  obtain xl xr where x:
    "dsub (Num px) (dmul (dmul (Num 0.5) (Num w)) (Num c)) = Num xl"
    "dadd (Num px) (dmul (dmul (Num 0.5) (Num w)) (Num c)) = Num xr"
    "\<bar>xl - (px - w / 2 * cos \<theta>)\<bar> \<le> \<tau>" "\<bar>xr - (px + w / 2 * cos \<theta>)\<bar> \<le> \<tau>"
    using bound_coordinates [OF b(1,4,5) c(2) abs_cos_le_one e] unfolding t by blast
  obtain yl yr where y:
    "dsub (Num py) (dmul (dmul (Num 0.5) (Num w)) (Num sn)) = Num yl"
    "dadd (Num py) (dmul (dmul (Num 0.5) (Num w)) (Num sn)) = Num yr"
    "\<bar>yl - (py - w / 2 * sin \<theta>)\<bar> \<le> \<tau>" "\<bar>yr - (py + w / 2 * sin \<theta>)\<bar> \<le> \<tau>"
    using bound_coordinates [OF b(2,4,5) s(2) abs_sin_le_one e] unfolding t by blast
  have "\<bar>pz + z\<bar> \<le> 2 * pow2 1000" using b(3,4,6) by linarith
  then have "\<bar>pz + z\<bar> \<le> pow2 1023" using pow2_1000(1) by simp
  then obtain zl where zl: "round_double (pz + z) = Num zl"
    "\<bar>zl - (pz + z)\<bar> \<le> \<bar>pz + z\<bar> / 2 ^ 53 + denormal_half"
    by (rule round_double_Num)
  have L: "left_bound_point64 g sp (Num w) s (Num z)
             = Inr \<lparr>x64 = Num xl, y64 = Num yl, z64 = Num zl\<rparr>"
    using p v c(1) s(1) x(1) y(1) zl(1) by (simp add: left_bound_point64_def Let_def)
  have R: "right_bound_point64 g sp (Num w) s (Num z)
             = Inr \<lparr>x64 = Num xr, y64 = Num yr, z64 = Num zl\<rparr>"
    using p v c(1) s(1) x(2) y(2) zl(1) by (simp add: right_bound_point64_def Let_def)
  have d: "\<bar>sqrt ((xr - xl)\<^sup>2 + (yr - yl)\<^sup>2 + (zl - zl)\<^sup>2) - \<bar>w\<bar>\<bar> \<le> 4 * \<tau>"
    by (rule bound_distance [OF x(3,4) y(3,4)])
  from L R x(3,4) y(3,4) zl(2) d show ?thesis by blast
qed

lemma unat_Suc_below:
  fixes n :: "64 word"
  assumes "unat n < 2 ^ 64 - 1"
  shows "unat (n + 1) = Suc (unat n)"
proof -
  have "unat n + unat (1 :: 64 word) < 2 ^ LENGTH(64)" using assms by simp
  then have "unat (n + 1) = unat n + unat (1 :: 64 word)"
    by (simp only: unat_add_lem)
  then show ?thesis by simp
qed

lemma spline_queries64_total:
  assumes "3 \<le> length cps" and "length cs = length cps - 1"
    and "\<forall>c \<in> set cs. dle (Num 0) (HermiteCurve_getLength64 g c)"
    and "s \<noteq> NaN"
  shows "\<exists>p v. getPoint64 g (CatmullRomSpline64 g cps cs) s = Inr p
             \<and> getNormalVector64 g (CatmullRomSpline64 g cps cs) s = Inr v"
proof -
  have "cs \<noteq> []" using assms(1,2) by auto
  then have "\<exists>i ls. i < length (curves64 (CatmullRomSpline64 g cps cs))
      \<and> getCurveIndexAndS64 g (CatmullRomSpline64 g cps cs) s = Inr (i, ls)"
    using assms(3,4)
    by (intro getCurveIndexAndS64_total) (simp_all add: CatmullRomSpline64_fields)
  then obtain i ls where "i < length (curves64 (CatmullRomSpline64 g cps cs))"
    "getCurveIndexAndS64 g (CatmullRomSpline64 g cps cs) s = Inr (i, ls)"
    by blast
  then show ?thesis
    by (simp add: getNormalVector64_def getPoint64_def)
qed

lemma spline_length64_nonneg:
  assumes "\<forall>c \<in> set cs. dle (Num 0) (HermiteCurve_getLength64 g c)"
    and "getLength64 (CatmullRomSpline64 g cps cs) = Num L"
  shows "0 \<le> L"
proof -
  have "dle (Num 0) (foldl (\<lambda>total len. dadd total len) (Num 0)
          (map (HermiteCurve_getLength64 g) cs))"
    using assms(1) by (intro foldl_dadd_nonneg) (auto simp add: dle_def)
  then have "dle (Num 0) (Num L)"
    using assms(2) by (simp add: getLength64_def CatmullRomSpline64_fields)
  then show ?thesis by (simp add: dle_def)
qed

lemma round_double_0: "round_double 0 = Num 0"
  by (simp add: round_double_def)

lemma unit_spline_length: "getLength64 unit_spline = Num 2"
  by (simp add: getLength64_def unit_spline_total)

lemma unit_spline_sample_points:
  "getPoint64 axis_geometry unit_spline (Num 0) = Inr (pt64 0 0 0)"
  "getPoint64 axis_geometry unit_spline (Num 1) = Inr (pt64 1 0 0)"
  "getPoint64 axis_geometry unit_spline (Num 2) = Inr (pt64 2 0 0)"
  by (simp_all add: getPoint64_def getCurveIndexAndS64_def unit_spline_fields
      round_double_small_nat round_double_0 dge_def dle_def dsub_def Let_def
      axis_geometry_def axis_getPoint_def pt64_def)

lemma unit_spline_samples:
  assumes "i \<le> 2"
  shows "dmul (ddiv (getLength64 unit_spline) (double_of_nat (unat (2 :: 64 word))))
           (double_of_nat i) = Num (real i)"
proof -
  have "i = 0 \<or> i = 1 \<or> i = 2" using assms by auto
  then show ?thesis
    by (auto simp add: unit_spline_length double_of_nat_def round_double_small_nat
        round_double_0)
qed

lemma axis_normal_angle:
  assumes "getNormalVector64 axis_geometry sp s = Inr v"
  shows "\<exists>\<theta>. std_atan2 axis_geometry (y64 v) (x64 v) = Num \<theta>"
proof -
  have v: "v = \<lparr>x64 = Num 0, y64 = Num 1, z64 = Num 0\<rparr>"
    using assms
    by (auto simp add: getNormalVector64_def axis_geometry_def axis_getNormalVector_def
        split: sum.splits if_splits)
  have "0 < pi" "pi < 4" using pi_gt_zero pi_less_4 by simp_all
  then have "\<bar>pi / 2\<bar> \<le> pow2 1023" using four_le_pow2_1023 by simp
  then have "round_double (pi / 2) = Num (nearest (pi / 2))"
    by (rule round_double_nearest)
  then show ?thesis
    by (simp add: v axis_geometry_def rounded_atan2_def atan2_def)
qed

lemma rounded_cos_sin_near:
  "\<exists>c. std_cos axis_geometry (Num \<theta>) = Num c \<and> \<bar>c - cos \<theta>\<bar> \<le> 1 / 2 ^ 52"
  "\<exists>s. std_sin axis_geometry (Num \<theta>) = Num s \<and> \<bar>s - sin \<theta>\<bar> \<le> 1 / 2 ^ 52"
proof -
  have near: "\<exists>r. round_double x = Num r \<and> \<bar>r - x\<bar> \<le> 1 / 2 ^ 52" if "\<bar>x\<bar> \<le> 1" for x
  proof -
    have "\<bar>x\<bar> \<le> pow2 1023" using that four_le_pow2_1023 by linarith
    then obtain r where r: "round_double x = Num r"
      "\<bar>r - x\<bar> \<le> \<bar>x\<bar> / 2 ^ 53 + denormal_half"
      by (rule round_double_Num)
    have "\<bar>x\<bar> / 2 ^ 53 \<le> 1 / 2 ^ 53" using that by (intro divide_right_mono) simp_all
    moreover have "(1 :: real) / 2 ^ 52 = 1 / 2 ^ 53 + 1 / 2 ^ 53" by simp
    ultimately have "\<bar>r - x\<bar> \<le> 1 / 2 ^ 52"
      using r(2) denormal_half_tiny by linarith
    with r(1) show ?thesis by blast
  qed
  show "\<exists>c. std_cos axis_geometry (Num \<theta>) = Num c \<and> \<bar>c - cos \<theta>\<bar> \<le> 1 / 2 ^ 52"
    using near [of "cos \<theta>"] by (simp add: axis_geometry_def rounded_cos_def)
  show "\<exists>s. std_sin axis_geometry (Num \<theta>) = Num s \<and> \<bar>s - sin \<theta>\<bar> \<le> 1 / 2 ^ 52"
    using near [of "sin \<theta>"] by (simp add: axis_geometry_def rounded_sin_def)
qed


section \<open>The claims\<close>

text \<open>
  Claim C1. A spline that the constructor returns for \<open>n \<ge> 3\<close> control points has
  exactly \<open>n - 1\<close> Hermite segments, and segment \<open>i\<close> evaluated at the local parameter 0 is
  control point \<open>i\<close>, at 1 control point \<open>i + 1\<close>, each coordinate within the machine epsilon
  of single precision. This is what \<^verbatim>\<open>checkConnection\<close> checks before the constructor returns,
  so it holds for every evaluation of a segment. (With the cubic evaluated exactly the check
  always passes: lemma \<open>CatmullRomSpline_cubic_succeeds\<close>.)
\<close>

theorem segments_meet_control_points:
  assumes "CatmullRomSpline g uninit cps = Inr sp" and "3 \<le> length cps"
  shows "length (curves sp) = length cps - 1 \<and>
         (\<forall>i < length cps - 1.
            \<bar>p_x (cps ! i) - p_x (HermiteCurve_getPoint g (curves sp ! i) 0 False)\<bar> \<le> float_epsilon \<and>
            \<bar>p_y (cps ! i) - p_y (HermiteCurve_getPoint g (curves sp ! i) 0 False)\<bar> \<le> float_epsilon \<and>
            \<bar>p_z (cps ! i) - p_z (HermiteCurve_getPoint g (curves sp ! i) 0 False)\<bar> \<le> float_epsilon \<and>
            \<bar>p_x (cps ! (i + 1)) - p_x (HermiteCurve_getPoint g (curves sp ! i) 1 False)\<bar> \<le> float_epsilon \<and>
            \<bar>p_y (cps ! (i + 1)) - p_y (HermiteCurve_getPoint g (curves sp ! i) 1 False)\<bar> \<le> float_epsilon \<and>
            \<bar>p_z (cps ! (i + 1)) - p_z (HermiteCurve_getPoint g (curves sp ! i) 1 False)\<bar> \<le> float_epsilon)"
proof -
  note c = CatmullRomSpline_curve [OF assms]
  have len: "length (curves sp) = length cps - 1"
    by (simp add: c(3))
  have loop: "checkConnection_loop g cps (curves sp) [0 ..< length (curves sp)] = None"
    using c(6) by (auto simp: checkConnection_def c(1) split: if_splits option.splits)
  have "equals (cps ! i) (HermiteCurve_getPoint g (curves sp ! i) 0 False)
      \<and> equals (cps ! (i + 1)) (HermiteCurve_getPoint g (curves sp ! i) 1 False)"
    if "i < length cps - 1" for i
    using checkConnection_loop_None [OF loop, of i] that len by simp
  then show ?thesis
    using len by (simp add: equals_iff)
qed

text \<open>The theorem at a concrete spline.\<close>

theorem segments_meet_control_points_witness:
  "CatmullRomSpline chord_geometry 0 straight_points = Inr straight_spline
   \<and> 3 \<le> length straight_points
   \<and> length (curves straight_spline) = length straight_points - 1
   \<and> \<bar>p_x (straight_points ! 1)
        - p_x (HermiteCurve_getPoint chord_geometry (curves straight_spline ! 1) 0 False)\<bar>
       \<le> float_epsilon
   \<and> \<bar>p_x (straight_points ! 2)
        - p_x (HermiteCurve_getPoint chord_geometry (curves straight_spline ! 1) 1 False)\<bar>
       \<le> float_epsilon"
proof -
  have n: "3 \<le> length straight_points" by (simp add: straight_points_length)
  from segments_meet_control_points [OF straight_spline_built n] straight_points_length
  have "length (curves straight_spline) = length straight_points - 1"
    and "\<forall>i < 2.
      \<bar>p_x (straight_points ! i)
        - p_x (HermiteCurve_getPoint chord_geometry (curves straight_spline ! i) 0 False)\<bar>
       \<le> float_epsilon
      \<and> \<bar>p_x (straight_points ! (i + 1))
        - p_x (HermiteCurve_getPoint chord_geometry (curves straight_spline ! i) 1 False)\<bar>
       \<le> float_epsilon"
    by simp_all
  then show ?thesis
    using straight_spline_built n by (simp add: numeral_2_eq_2)
qed



text \<open>
  Claim C3, as stated: \<^verbatim>\<open>getSInSplineCurve\<close> applied to the pair that
  \<^verbatim>\<open>getCurveIndexAndS\<close> returns for \<open>s\<close> equals \<open>s\<close>. The difference \<open>s - prev_s\<close> and the sum
  \<open>ret + s\<close> are rounded: with the lengths \<open>1 + 2\<^sup>-\<^sup>5\<^sup>2\<close> and 3 (total 4) and
  \<open>s = 3.5 + 2\<^sup>-\<^sup>5\<^sup>1\<close> the pair is \<open>(1, 2.5)\<close> and the way back gives 3.5.
\<close>

theorem resolution_round_trip_counterexample:
  "length (control_points64 uneven_spline) = 3
   \<and> length_list64 uneven_spline = [Num (1 + 1 / 2 ^ 52), Num 3]
   \<and> total_length64 uneven_spline = Num 4
   \<and> dle (Num 0) (Num (7 / 2 + 1 / 2 ^ 51))
   \<and> dle (Num (7 / 2 + 1 / 2 ^ 51)) (total_length64 uneven_spline)
   \<and> getCurveIndexAndS64 axis_geometry uneven_spline (Num (7 / 2 + 1 / 2 ^ 51))
       = Inr (1, Num (5 / 2))
   \<and> getSInSplineCurve64 axis_geometry uneven_spline 1 (Num (5 / 2)) = Inr (Num (7 / 2))
   \<and> Num (7 / 2) \<noteq> Num (7 / 2 + 1 / 2 ^ 51)"
proof -
  have r: "getCurveIndexAndS64 axis_geometry uneven_spline (Num (7 / 2 + 1 / 2 ^ 51))
       = Inr (1, Num (5 / 2))"
    using uneven_sums
    by (simp add: getCurveIndexAndS64_def uneven_spline_fields dge_def dle_def Let_def)
  have b: "getSInSplineCurve64 axis_geometry uneven_spline 1 (Num (5 / 2)) = Inr (Num (7 / 2))"
    using uneven_sums
    by (simp add: getSInSplineCurve64_def uneven_spline_fields axis_geometry_def)
  show ?thesis
    using r b by (simp add: uneven_spline_fields dle_def)
qed

text \<open>
  Claim C3, amended. For a spline of \<open>n \<ge> 3\<close> control points whose segment lengths are
  not negative and whose total length is a number of at most \<open>2\<^sup>1\<^sup>0\<^sup>2\<^sup>2\<close>, and for every \<open>s\<close> from 0 to
  the total length, \<^verbatim>\<open>getCurveIndexAndS\<close> returns a pair whose index is at most \<open>n - 2\<close>, and
  \<^verbatim>\<open>getSInSplineCurve\<close> applied to the pair returns \<open>s\<close> up to the rounding of the sums on the
  way: a number within \<open>s / 2\<^sup>5\<^sup>0 + 2\<^sup>-\<^sup>1\<^sup>0\<^sup>7\<^sup>2\<close> of \<open>s\<close>.
\<close>

theorem resolution_round_trip_rounds:
  assumes "3 \<le> length cps" and "length cs = length cps - 1"
    and "\<forall>c \<in> set cs. dle (Num 0) (HermiteCurve_getLength64 g c)"
    and "total_length64 (CatmullRomSpline64 g cps cs) = Num T" and "T \<le> pow2 1022"
    and "0 \<le> \<sigma>" and "\<sigma> \<le> T"
  shows "\<exists>i ls r.
           getCurveIndexAndS64 g (CatmullRomSpline64 g cps cs) (Num \<sigma>) = Inr (i, ls)
         \<and> i \<le> length cps - 2
         \<and> getSInSplineCurve64 g (CatmullRomSpline64 g cps cs) i ls = Inr (Num r)
         \<and> \<bar>r - \<sigma>\<bar> \<le> \<sigma> / 2 ^ 50 + 8 * denormal_half"
proof -
  let ?sp = "CatmullRomSpline64 g cps cs"
  let ?LL = "map (HermiteCurve_getLength64 g) cs"
  let ?P = "\<lambda>j. foldl (\<lambda>total len. dadd total len) (Num 0) (take j ?LL)"
  note f = CatmullRomSpline64_fields [of g cps cs]
  have ne: "cs \<noteq> []" using assms(1,2) by auto
  have nonneg: "\<forall>l \<in> set (length_list64 ?sp). dle (Num 0) l"
    using assms(3) by (simp add: f)
  have len: "length (length_list64 ?sp) = length (curves64 ?sp)" by (simp add: f)
  have tot: "foldl (\<lambda>total len. dadd total len) (Num 0) ?LL = Num T"
    using assms(4) by (simp add: f)
  have notneg: "\<not> dlt (Num \<sigma>) (Num 0)" using assms(6) by simp
  show ?thesis
  proof (cases "\<sigma> < T")
    case True
    have lt: "dlt (Num \<sigma>) (foldl (\<lambda>total len. dadd total len) (Num 0) (length_list64 ?sp))"
      using True tot by (simp add: f)
    have le: "dle (foldl (\<lambda>total len. dadd total len) (Num 0) (take 0 (length_list64 ?sp))) (Num \<sigma>)"
      using assms(6) by (simp add: dle_def)
    from getCurveIndexAndS64_loop_finds [OF len nonneg _ _ le lt]
    obtain j where j: "j < length cs" "dle (?P j) (Num \<sigma>)"
      "getCurveIndexAndS64_loop ?sp (Num \<sigma>) 0 (Num 0) = Inr (j, dsub (Num \<sigma>) (?P j))"
      by (auto simp: f)
    have res: "getCurveIndexAndS64 g ?sp (Num \<sigma>) = Inr (j, dsub (Num \<sigma>) (?P j))"
      using True notneg j(3) assms(4) by (simp add: getCurveIndexAndS64_def dge_def dle_def)
    have "dle (Num 0) (?P j)"
      using partial_sum_nonneg [OF nonneg, of j] by (simp add: f)
    then obtain p where p: "?P j = Num p" "0 \<le> p" "p \<le> \<sigma>"
      using j(2) by (cases rule: dle_zero_cases) (auto simp: dle_def)
    from round_trip_inside_bound [OF p(2,3)] assms(5,7)
    obtain d r where dr: "round_double (\<sigma> - p) = Num d" "round_double (p + d) = Num r"
      "\<bar>r - \<sigma>\<bar> \<le> \<sigma> / 2 ^ 50 + 8 * denormal_half"
      by (metis order_trans)
    have ls: "dsub (Num \<sigma>) (?P j) = Num d"
      using dr(1) by (simp add: p(1) dsub_def)
    have "getSInSplineCurve64 g ?sp j (Num d) = Inr (Num r)"
      using j(1) dr(2) by (simp add: getSInSplineCurve64_eq f p(1))
    moreover have "j \<le> length cps - 2" using j(1) assms(2) by simp
    ultimately show ?thesis
      using res ls dr(3) by (intro exI [of _ j] exI [of _ "Num d"] exI [of _ r]) simp
  next
    case False
    with assms(7) have eq: "\<sigma> = T" by simp
    let ?m = "length cs - 1"
    have m: "?m < length cs" using ne by simp
    have split: "?LL = take ?m ?LL @ [?LL ! ?m]"
      using m by (metis Suc_diff_1 length_greater_0_conv length_map ne order_refl
          take_Suc_conv_app_nth take_all)
    have "foldl (\<lambda>total len. dadd total len) (Num 0) ?LL = dadd (?P ?m) (?LL ! ?m)"
      by (subst split) simp
    with tot have sum: "dadd (?P ?m) (?LL ! ?m) = Num T" by simp
    have "dle (Num 0) (?P ?m)"
      using partial_sum_nonneg [OF nonneg, of ?m] by (simp add: f)
    moreover have "dle (Num 0) (?LL ! ?m)"
      using assms(3) m by simp
    ultimately obtain p l where pl: "?P ?m = Num p" "?LL ! ?m = Num l" "0 \<le> p" "0 \<le> l"
      "round_double (p + l) = Num T"
      using sum by (rule dadd_Num_nonneg)
    from round_trip_beyond_bound [OF pl(3,4,5) assms(5)]
    obtain t ls r where b: "round_double (T - l) = Num t" "round_double (T - t) = Num ls"
      "round_double (p + ls) = Num r" "\<bar>r - T\<bar> \<le> T / 2 ^ 50 + 8 * denormal_half"
      by blast
    have lm: "HermiteCurve_getLength64 g (cs ! (length cs - Suc 0)) = Num l"
      using pl(2) m by simp
    have res: "getCurveIndexAndS64 g ?sp (Num \<sigma>) = Inr (?m, Num ls)"
      using notneg ne b(1,2) assms(4)
      by (simp add: getCurveIndexAndS64_def dge_def dle_def eq f(2) lm dsub_def)
    have pm: "foldl dadd (Num 0) (take (length cs - Suc 0) ?LL) = Num p"
      using pl(1) by simp
    have "getSInSplineCurve64 g ?sp ?m (Num ls) = Inr (Num r)"
      using m b(3) by (simp add: getSInSplineCurve64_eq f pm)
    moreover have "?m \<le> length cps - 2" using assms(2) by simp
    ultimately show ?thesis
      using res b(4) eq by (intro exI [of _ ?m] exI [of _ "Num ls"] exI [of _ r]) simp
  qed
qed

text \<open>The theorem at a concrete spline.\<close>

theorem resolution_round_trip_rounds_witness:
  "length (control_points64 unit_spline) = 3
   \<and> length_list64 unit_spline = [Num 1, Num 1]
   \<and> total_length64 unit_spline = Num 2
   \<and> (\<exists>i ls r.
          getCurveIndexAndS64 axis_geometry unit_spline (Num (3 / 2)) = Inr (i, ls)
        \<and> i \<le> 1
        \<and> getSInSplineCurve64 axis_geometry unit_spline i ls = Inr (Num r)
        \<and> \<bar>r - 3 / 2\<bar> \<le> (3 / 2) / 2 ^ 50 + 8 * denormal_half)"
proof -
  have t: "total_length64 (CatmullRomSpline64 axis_geometry
             [pt64 0 0 0, pt64 1 0 0, pt64 2 0 0] [(0, 1), (1, 1)]) = Num 2"
    using unit_spline_total by (simp add: unit_spline_def)
  have b: "(2 :: real) \<le> pow2 1022" using large_pow2_1022 by linarith
  have l: "\<forall>c \<in> set [(0 :: real, 1 :: real), (1, 1)].
             dle (Num 0) (HermiteCurve_getLength64 axis_geometry c)"
    by (simp add: axis_geometry_def dle_def)
  have "\<exists>i ls r.
          getCurveIndexAndS64 axis_geometry unit_spline (Num (3 / 2)) = Inr (i, ls)
        \<and> i \<le> 1
        \<and> getSInSplineCurve64 axis_geometry unit_spline i ls = Inr (Num r)
        \<and> \<bar>r - 3 / 2\<bar> \<le> (3 / 2) / 2 ^ 50 + 8 * denormal_half"
    using resolution_round_trip_rounds
            [where g = axis_geometry and cps = "[pt64 0 0 0, pt64 1 0 0, pt64 2 0 0]"
               and cs = "[(0, 1), (1, 1)]" and T = 2 and \<sigma> = "3 / 2", OF _ _ l t b]
    by (simp add: unit_spline_def)
  moreover have "length (control_points64 unit_spline) = 3"
    by (simp add: unit_spline_fields(1))
  moreover note unit_spline_fields(3) unit_spline_total
  ultimately show ?thesis by blast
qed

text \<open>
  Claim C4, as stated: for every choice of \<open>start_s\<close>, \<open>end_s\<close>, \<open>resolution\<close> and offset
  \<^verbatim>\<open>getTrajectory\<close> returns. Its loop adds \<open>|resolution|\<close> to \<open>s\<close> until \<open>s\<close> reaches \<open>end_s\<close>, and a
  sum that rounds back to \<open>s\<close> never does: with the resolution 0, from 0 to 1, and with the
  resolution 1, from \<open>10\<^sup>1\<^sup>6\<close> to \<open>10\<^sup>1\<^sup>6 + 2\<close>, where \<open>10\<^sup>1\<^sup>6 + 1\<close> rounds to \<open>10\<^sup>1\<^sup>6\<close>, the model has
  no result.
\<close>

theorem trajectory_never_returns_counterexample:
  "length (control_points64 unit_spline) = 3
   \<and> getTrajectory64 axis_geometry unit_spline (Num 0) (Num 1) (Num 0) (Num 0) = None
   \<and> dadd (Num (10 ^ 16)) (dabs (Num 1)) = Num (10 ^ 16)
   \<and> getTrajectory64 axis_geometry unit_spline (Num (10 ^ 16)) (Num (10 ^ 16 + 2)) (Num 1)
       (Num 0) = None"
proof -
  have "getTrajectory64 axis_geometry unit_spline (Num 0) (Num 1) (Num 0) (Num 0) = None"
    by (rule getTrajectory64_absorbed) (simp_all add: unit_spline_points round_double_def)
  moreover have a: "dadd (Num (10 ^ 16)) (dabs (Num 1)) = Num (10 ^ 16)"
    using ex_a by simp
  moreover have
    "getTrajectory64 axis_geometry unit_spline (Num (10 ^ 16)) (Num (10 ^ 16 + 2)) (Num 1)
       (Num 0) = None"
    using a by (intro getTrajectory64_absorbed) (simp_all add: unit_spline_points)
  moreover have "length (control_points64 unit_spline) = 3"
    by (simp add: unit_spline_fields(1))
  ultimately show ?thesis by blast
qed

text \<open>
  Claim C4, amended. For a spline of \<open>n \<ge> 3\<close> control points whose segment lengths are
  not negative, for numbers \<open>start_s\<close> and \<open>end_s\<close> of magnitude at most \<open>2\<^sup>1\<^sup>0\<^sup>2\<^sup>3\<close>, for a
  resolution that is a number with
  \<open>|resolution| \<ge> max |start_s| |end_s| / 2\<^sup>5\<^sup>1 + 2\<^sup>-\<^sup>1\<^sup>0\<^sup>7\<^sup>3\<close>, and for every offset,
  \<^verbatim>\<open>getTrajectory\<close> returns a list of points, which is not empty and whose last element is the
  point that \<^verbatim>\<open>getPoint\<close> gives at \<open>end_s\<close> with that offset. Under this bound every step moves
  \<open>s\<close> by at least half the resolution, or to infinity, which ends the loop.
\<close>

theorem trajectory_returns_when_the_step_counts:
  assumes "3 \<le> length cps" and "length cs = length cps - 1"
    and "\<forall>c \<in> set cs. dle (Num 0) (HermiteCurve_getLength64 g c)"
    and "\<bar>start_s\<bar> \<le> pow2 1023" and "\<bar>end_s\<bar> \<le> pow2 1023"
    and "max \<bar>start_s\<bar> \<bar>end_s\<bar> / 2 ^ 51 + 4 * denormal_half \<le> \<bar>resolution\<bar>"
  shows "\<exists>pts. getTrajectory64 g (CatmullRomSpline64 g cps cs)
                 (Num start_s) (Num end_s) (Num resolution) offset = Some (Inr pts)
             \<and> pts \<noteq> []
             \<and> getPoint_offset64 g (CatmullRomSpline64 g cps cs) (Num end_s) offset
                 = Inr (last pts)"
proof -
  define sp where "sp = CatmullRomSpline64 g cps cs"
  define M where "M = max \<bar>start_s\<bar> \<bar>end_s\<bar>"
  have tot: "\<exists>p. getPoint_offset64 g sp s offset = Inr p" if "s \<noteq> NaN" for s
    unfolding sp_def
    using assms(1,2,3) that
    by (intro getPoint_offset64_total) (auto simp add: CatmullRomSpline64_fields)
  have M: "\<bar>start_s\<bar> \<le> M" "\<bar>end_s\<bar> \<le> M" "M \<le> pow2 1023"
    using assms(4,5) by (simp_all add: M_def)
  have r: "M / 2 ^ 51 + 4 * denormal_half \<le> \<bar>resolution\<bar>"
    using assms(6) by (simp add: M_def)
  have "0 \<le> M / 2 ^ 51" using M(1) by simp
  with r denormal_half_pos have pos: "0 < \<bar>resolution\<bar>" by linarith
  obtain p where p: "getPoint_offset64 g sp (Num end_s) offset = Inr p"
    using tot [of "Num end_s"] by auto
  obtain n where n: "\<bar>end_s - start_s\<bar> \<le> real n * (\<bar>resolution\<bar> / 2)"
  proof -
    have "0 < \<bar>resolution\<bar> / 2" using pos by simp
    then obtain k :: nat where "\<bar>end_s - start_s\<bar> < real k * (\<bar>resolution\<bar> / 2)"
      using reals_Archimedean3 by blast
    then show ?thesis using that [of k] by simp
  qed
  have "\<exists>ret. getTrajectory64 g sp (Num start_s) (Num end_s) (Num resolution) offset
          = Some (Inr (ret @ [p]))"
  proof (cases "end_s < start_s")
    case True
    have "start_s - end_s \<le> real n * (\<bar>resolution\<bar> / 2)" using n by linarith
    then obtain ret where
      "getTrajectory64_down g sp (Num start_s) (Num end_s) (Num resolution) offset []
         = Some (Inr ret)"
      using getTrajectory64_down_returns
              [where g = g and sp = sp and offset = offset and a = start_s and s = start_s
                 and b = end_s and M = M and r = resolution and n = n and ret = "[]",
               OF tot M r pos]
      by auto
    with True p show ?thesis
      by (simp add: getTrajectory64_def getTrajectory64_finish_def dgt_def)
  next
    case False
    have "end_s - start_s \<le> real n * (\<bar>resolution\<bar> / 2)" using n by linarith
    then obtain ret where
      "getTrajectory64_up g sp (Num start_s) (Num end_s) (Num resolution) offset []
         = Some (Inr ret)"
      using getTrajectory64_up_returns
              [where g = g and sp = sp and offset = offset and a = start_s and s = start_s
                 and b = end_s and M = M and r = resolution and n = n and ret = "[]",
               OF tot M r pos]
      by auto
    with False p show ?thesis
      by (simp add: getTrajectory64_def getTrajectory64_finish_def dgt_def)
  qed
  with p show ?thesis unfolding sp_def by auto
qed

text \<open>The theorem at a concrete spline.\<close>

theorem trajectory_returns_when_the_step_counts_witness:
  "length (control_points64 unit_spline) = 3
   \<and> length_list64 unit_spline = [Num 1, Num 1]
   \<and> (\<exists>pts. getTrajectory64 axis_geometry unit_spline (Num 0) (Num 2) (Num (1 / 2)) (Num 0)
               = Some (Inr pts)
           \<and> pts \<noteq> []
           \<and> getPoint_offset64 axis_geometry unit_spline (Num 2) (Num 0) = Inr (last pts))"
proof -
  have l: "\<forall>c \<in> set [(0 :: real, 1 :: real), (1, 1)].
             dle (Num 0) (HermiteCurve_getLength64 axis_geometry c)"
    by (simp add: axis_geometry_def dle_def)
  have b: "\<bar>0 :: real\<bar> \<le> pow2 1023" "\<bar>2 :: real\<bar> \<le> pow2 1023"
    using four_le_pow2_1023 by simp_all
  have r: "max \<bar>0 :: real\<bar> \<bar>2\<bar> / 2 ^ 51 + 4 * denormal_half \<le> \<bar>1 / 2\<bar>"
    using denormal_half_small by simp
  have "\<exists>pts. getTrajectory64 axis_geometry unit_spline (Num 0) (Num 2) (Num (1 / 2)) (Num 0)
               = Some (Inr pts)
           \<and> pts \<noteq> []
           \<and> getPoint_offset64 axis_geometry unit_spline (Num 2) (Num 0) = Inr (last pts)"
    using trajectory_returns_when_the_step_counts
            [where g = axis_geometry and cps = "[pt64 0 0 0, pt64 1 0 0, pt64 2 0 0]"
               and cs = "[(0, 1), (1, 1)]" and start_s = 0 and end_s = 2
               and resolution = "1 / 2" and offset = "Num 0", OF _ _ l b r]
    by (simp add: unit_spline_def)
  moreover have "length (control_points64 unit_spline) = 3"
    by (simp add: unit_spline_fields(1))
  moreover note unit_spline_fields(3)
  ultimately show ?thesis by blast
qed

text \<open>
  Claim C5. The polygon overload of \<^verbatim>\<open>getCollisionPointIn2D\<close> on a spline of one control
  point returns no value; on a spline of two control points it intersects the first line
  segment of the spline with every line segment of the polygon and returns the smallest of
  the values found, the greatest when searching backward, and no value when none is found.
  (The spline has a first line segment when \<^verbatim>\<open>getLineSegments\<close> gives its two control points
  one; without it the source reads outside the vector as soon as the polygon has a segment.)
\<close>

theorem polygon_collision_of_point_and_line:
  assumes "CatmullRomSpline g uninit cps = Inr sp"
  shows "(length cps = 1 \<longrightarrow> getCollisionPointIn2D_polygon g sp polygon search_backward = Inr None)
       \<and> (length cps = 2
            \<and> (getLineSegments g cps \<noteq> [] \<or> getLineSegments g polygon = []) \<longrightarrow>
            line_segments sp = getLineSegments g cps \<and>
            getCollisionPointIn2D_polygon g sp polygon search_backward =
              (let S = {s. \<exists>edge \<in> set (getLineSegments g polygon).
                         LineSegment_getIntersection2DSValue g (line_segments sp ! 0) edge = Some s}
               in Inr (if S = {} then None
                       else if search_backward then Some (Max S) else Some (Min S))))"
proof (intro conjI impI)
  assume "length cps = 1"
  then have "control_points sp = cps"
    using CatmullRomSpline_small [of cps g uninit] assms by auto
  with \<open>length cps = 1\<close> show "getCollisionPointIn2D_polygon g sp polygon search_backward = Inr None"
    by (simp add: getCollisionPointIn2D_polygon_def get_collision_point_2d_with_point_def)
next
  assume a: "length cps = 2
    \<and> (getLineSegments g cps \<noteq> [] \<or> getLineSegments g polygon = [])"
  then have sp: "control_points sp = cps" "line_segments sp = getLineSegments g cps"
    using CatmullRomSpline_small [of cps g uninit] assms by auto
  show "line_segments sp = getLineSegments g cps" by (rule sp(2))
  let ?f = "\<lambda>line. LineSegment_getIntersection2DSValue g (line_segments sp ! 0) line"
  let ?c = "List.map_filter ?f (getLineSegments g polygon)"
  have S: "{s. \<exists>edge \<in> set (getLineSegments g polygon). ?f edge = Some s} = set ?c"
    by (simp add: set_map_filter)
  have "getCollisionPointIn2D_polygon g sp polygon search_backward =
          Inr (if set ?c = {} then None
               else if search_backward then Some (Max (set ?c)) else Some (Min (set ?c)))"
  proof (cases ?c)
    case Nil
    then show ?thesis
      using a sp
      by (auto simp: getCollisionPointIn2D_polygon_def get_collision_point_2d_with_line_def Let_def)
  next
    case (Cons v vs)
    then show ?thesis
      using a sp
      by (auto simp: getCollisionPointIn2D_polygon_def get_collision_point_2d_with_line_def
          Let_def max_element_Max min_element_Min simp del: Max_insert Min_insert)
  qed
  then show "getCollisionPointIn2D_polygon g sp polygon search_backward =
              (let S = {s. \<exists>edge \<in> set (getLineSegments g polygon). ?f edge = Some s}
               in Inr (if S = {} then None
                       else if search_backward then Some (Max S) else Some (Min S)))"
    unfolding S Let_def .
qed

text \<open>The theorem at a concrete spline.\<close>

theorem polygon_collision_of_point_and_line_witness:
  "CatmullRomSpline chord_geometry 0 line_points = Inr line_spline
   \<and> length line_points = 2
   \<and> getLineSegments chord_geometry line_points \<noteq> []
   \<and> getCollisionPointIn2D_polygon chord_geometry line_spline box False =
       Inr (Some (Min {s. \<exists>edge \<in> set (getLineSegments chord_geometry box).
              LineSegment_getIntersection2DSValue chord_geometry (line_segments line_spline ! 0) edge
                = Some s}))
   \<and> getCollisionPointIn2D_polygon chord_geometry line_spline box False = Inr (Some (1/2))
   \<and> getCollisionPointIn2D_polygon chord_geometry line_spline box True = Inr (Some (3/2))"
proof -
  have h: "length line_points = 2" "getLineSegments chord_geometry line_points \<noteq> []"
    by (simp_all add: line_points_def chord_geometry_def neighbour_segments_def)
  have fwd: "getCollisionPointIn2D_polygon chord_geometry line_spline box False = Inr (Some (1/2))"
    by (simp add: getCollisionPointIn2D_polygon_def get_collision_point_2d_with_line_def
        chord_geometry_def line_points_def line_spline_def pt_def neighbour_segments_def
        box_def segment_intersection_def min_element_def Let_def)
  have bwd: "getCollisionPointIn2D_polygon chord_geometry line_spline box True = Inr (Some (3/2))"
    by (simp add: getCollisionPointIn2D_polygon_def get_collision_point_2d_with_line_def
        chord_geometry_def line_points_def line_spline_def pt_def neighbour_segments_def
        box_def segment_intersection_def max_element_def Let_def)
  let ?S = "{s. \<exists>edge \<in> set (getLineSegments chord_geometry box).
              LineSegment_getIntersection2DSValue chord_geometry (line_segments line_spline ! 0) edge
                = Some s}"
  from polygon_collision_of_point_and_line [OF line_spline_built, of box False] h
  have "getCollisionPointIn2D_polygon chord_geometry line_spline box False =
          Inr (if ?S = {} then None else Some (Min ?S))"
    by (simp add: Let_def)
  then have eq: "Inr (Some (1/2)) = (Inr (if ?S = {} then None else Some (Min ?S)) :: error + real option)"
    by (simp only: fwd)
  have "?S \<noteq> {}"
  proof
    assume "?S = {}"
    with eq have "Inr (Some (1/2)) = (Inr None :: error + real option)" by simp
    then show False by simp
  qed
  with eq have "Inr (Some (1/2)) = (Inr (Some (Min ?S)) :: error + real option)"
    by (simp only: if_False)
  with fwd have "getCollisionPointIn2D_polygon chord_geometry line_spline box False =
          Inr (Some (Min ?S))"
    by (simp only:)
  with fwd bwd h line_spline_built show ?thesis by blast
qed



text \<open>
  Claim C7, as stated: for every \<open>num_points \<ge> 1\<close> each of the bounds has
  \<open>num_points + 1\<close> points. The loop runs while \<^verbatim>\<open>i < static_cast<size_t>(num_points + 1)\<close>,
  and this sum of 64-bit words wraps: with \<open>num_points = 2\<^sup>6\<^sup>4 - 1\<close> it is 0, and both bounds
  are empty.
\<close>

theorem bounds_wrap_counterexample:
  "length (control_points64 unit_spline) = 3
   \<and> (1 :: 64 word) \<le> - 1
   \<and> unat (- 1 :: 64 word) + 1 = 2 ^ 64
   \<and> getLeftBounds64 axis_geometry unit_spline (Num 2) (- 1) (Num 0) = Inr []
   \<and> getRightBounds64 axis_geometry unit_spline (Num 2) (- 1) (Num 0) = Inr []"
proof -
  have "length (control_points64 unit_spline) = 3"
    by (simp add: unit_spline_fields(1))
  moreover have "(1 :: 64 word) \<le> - 1" by simp
  moreover have "unat (- 1 :: 64 word) + 1 = 2 ^ 64" by (simp add: unsigned_minus_1_eq_mask mask_eq_exp_minus_1)
  moreover have "getLeftBounds64 axis_geometry unit_spline (Num 2) (- 1) (Num 0) = Inr []"
    by (simp add: getLeftBounds64_def)
  moreover have "getRightBounds64 axis_geometry unit_spline (Num 2) (- 1) (Num 0) = Inr []"
    by (simp add: getRightBounds64_def)
  ultimately show ?thesis by blast
qed

text \<open>
  Claim C7, amended. Take a spline of \<open>n \<ge> 3\<close> control points whose segment lengths are
  not negative and whose total length \<open>L\<close> is a number of at most \<open>2\<^sup>1\<^sup>0\<^sup>0\<^sup>0\<close>, \<open>num_points\<close> from
  1 to \<open>2\<^sup>6\<^sup>4 - 2\<close>, and a width \<open>w\<close> and a z offset of magnitude at most \<open>2\<^sup>1\<^sup>0\<^sup>0\<^sup>0\<close>. Of the
  absent code suppose that at every sample the point of the spline is finite, with
  coordinates of magnitude at most \<open>P \<le> 2\<^sup>1\<^sup>0\<^sup>0\<^sup>0\<close>, and \<^verbatim>\<open>std::atan2\<close> of the normal vector is a
  number, and that \<^verbatim>\<open>std::cos\<close> and \<^verbatim>\<open>std::sin\<close> are within \<open>\<epsilon> \<le> 1\<close> of the cosine and the
  sine. Then each of \<^verbatim>\<open>getLeftBounds\<close> and \<^verbatim>\<open>getRightBounds\<close> returns \<open>num_points + 1\<close> points.
  The sample of index \<open>i\<close> is the arc length \<^verbatim>\<open>step_size * i\<close>, a number within
  \<open>(L i / num_points) / 2\<^sup>4\<^sup>8 + i 2\<^sup>-\<^sup>1\<^sup>0\<^sup>7\<^sup>3\<close> of \<open>L i / num_points\<close>, so the samples
  are evenly spaced from 0 to \<open>L\<close> up to rounding. With \<open>\<theta>\<close> the angle of the normal vector
  at the sample and the tolerance \<open>\<tau> = |w| \<epsilon> / 2 + (P + 4 |w|) / 2\<^sup>5\<^sup>2 + 6 \<sqdot> 2\<^sup>-\<^sup>1\<^sup>0\<^sup>7\<^sup>5\<close>, the x
  and y of the left point are within \<open>\<tau>\<close> of those of the point of the spline moved by
  \<open>- w / 2\<close> along the direction \<open>\<theta>\<close>, those of the right point within \<open>\<tau>\<close> of the point moved
  by \<open>w / 2\<close>; both points have the same z, the rounded sum of the z of the point and the
  offset; and their distance is within \<open>4 \<tau>\<close> of the width (of \<open>|w|\<close>, whatever the sign of
  \<open>w\<close>).
\<close>

theorem bounds_sampled_within_tolerance:
  fixes num_points :: "64 word"
  assumes "3 \<le> length cps" and "length cs = length cps - 1"
    and "\<forall>c \<in> set cs. dle (Num 0) (HermiteCurve_getLength64 g c)"
    and "sp = CatmullRomSpline64 g cps cs"
    and "getLength64 sp = Num L" and "L \<le> pow2 1000"
    and "1 \<le> unat num_points" and "unat num_points < 2 ^ 64 - 1"
    and "step_size = ddiv (getLength64 sp) (double_of_nat (unat num_points))"
    and "\<bar>w\<bar> \<le> pow2 1000" and "\<bar>z\<bar> \<le> pow2 1000" and "P \<le> pow2 1000"
    and "\<forall>i \<le> unat num_points. \<forall>p.
           getPoint64 g sp (dmul step_size (double_of_nat i)) = Inr p \<longrightarrow>
           (\<exists>px py pz. p = \<lparr>x64 = Num px, y64 = Num py, z64 = Num pz\<rparr>
                     \<and> \<bar>px\<bar> \<le> P \<and> \<bar>py\<bar> \<le> P \<and> \<bar>pz\<bar> \<le> P)"
    and "\<forall>i \<le> unat num_points. \<forall>v.
           getNormalVector64 g sp (dmul step_size (double_of_nat i)) = Inr v \<longrightarrow>
           (\<exists>\<theta>. std_atan2 g (y64 v) (x64 v) = Num \<theta>)"
    and "\<forall>\<theta>. \<exists>c. std_cos g (Num \<theta>) = Num c \<and> \<bar>c - cos \<theta>\<bar> \<le> \<epsilon>"
    and "\<forall>\<theta>. \<exists>s. std_sin g (Num \<theta>) = Num s \<and> \<bar>s - sin \<theta>\<bar> \<le> \<epsilon>"
    and "\<epsilon> \<le> 1"
    and "\<tau> = \<bar>w\<bar> * \<epsilon> / 2 + (P + 4 * \<bar>w\<bar>) / 2 ^ 52 + 6 * denormal_half"
  shows "\<exists>left right.
           getLeftBounds64 g sp (Num w) num_points (Num z) = Inr left
         \<and> getRightBounds64 g sp (Num w) num_points (Num z) = Inr right
         \<and> length left = unat num_points + 1 \<and> length right = unat num_points + 1
         \<and> (\<forall>i \<le> unat num_points. \<exists>s px py pz v \<theta> xl yl zl xr yr zr.
               dmul step_size (double_of_nat i) = Num s
             \<and> \<bar>s - L * real i / real (unat num_points)\<bar>
                 \<le> L * real i / real (unat num_points) / 2 ^ 48 + 4 * real i * denormal_half
             \<and> getPoint64 g sp (Num s) = Inr \<lparr>x64 = Num px, y64 = Num py, z64 = Num pz\<rparr>
             \<and> getNormalVector64 g sp (Num s) = Inr v
             \<and> std_atan2 g (y64 v) (x64 v) = Num \<theta>
             \<and> left ! i = \<lparr>x64 = Num xl, y64 = Num yl, z64 = Num zl\<rparr>
             \<and> right ! i = \<lparr>x64 = Num xr, y64 = Num yr, z64 = Num zr\<rparr>
             \<and> \<bar>xl - (px - w / 2 * cos \<theta>)\<bar> \<le> \<tau> \<and> \<bar>yl - (py - w / 2 * sin \<theta>)\<bar> \<le> \<tau>
             \<and> \<bar>xr - (px + w / 2 * cos \<theta>)\<bar> \<le> \<tau> \<and> \<bar>yr - (py + w / 2 * sin \<theta>)\<bar> \<le> \<tau>
             \<and> zl = zr \<and> \<bar>zl - (pz + z)\<bar> \<le> \<bar>pz + z\<bar> / 2 ^ 53 + denormal_half
             \<and> \<bar>sqrt ((xr - xl)\<^sup>2 + (yr - yl)\<^sup>2 + (zr - zl)\<^sup>2) - \<bar>w\<bar>\<bar> \<le> 4 * \<tau>)"
proof -
  let ?n = "unat num_points"
  let ?s = "\<lambda>i. dmul step_size (double_of_nat i)"
  let ?lf = "\<lambda>i. left_bound_point64 g sp (Num w) (?s i) (Num z)"
  let ?rf = "\<lambda>i. right_bound_point64 g sp (Num w) (?s i) (Num z)"
  let ?left = "map (\<lambda>i. projr (?lf i)) [0 ..< Suc ?n]"
  let ?right = "map (\<lambda>i. projr (?rf i)) [0 ..< Suc ?n]"
  have n: "unat (num_points + 1) = Suc ?n"
    using assms(8) by (rule unat_Suc_below)
  have n64: "?n < 2 ^ 64" using assms(8) by simp
  have L0: "0 \<le> L"
    using assms(3,5) unfolding assms(4) by (rule spline_length64_nonneg)
  have each: "\<exists>s px py pz v \<theta> xl yl zl xr yr zr.
        ?s i = Num s
      \<and> \<bar>s - L * real i / real ?n\<bar> \<le> L * real i / real ?n / 2 ^ 48 + 4 * real i * denormal_half
      \<and> getPoint64 g sp (Num s) = Inr \<lparr>x64 = Num px, y64 = Num py, z64 = Num pz\<rparr>
      \<and> getNormalVector64 g sp (Num s) = Inr v
      \<and> std_atan2 g (y64 v) (x64 v) = Num \<theta>
      \<and> ?lf i = Inr \<lparr>x64 = Num xl, y64 = Num yl, z64 = Num zl\<rparr>
      \<and> ?rf i = Inr \<lparr>x64 = Num xr, y64 = Num yr, z64 = Num zr\<rparr>
      \<and> \<bar>xl - (px - w / 2 * cos \<theta>)\<bar> \<le> \<tau> \<and> \<bar>yl - (py - w / 2 * sin \<theta>)\<bar> \<le> \<tau>
      \<and> \<bar>xr - (px + w / 2 * cos \<theta>)\<bar> \<le> \<tau> \<and> \<bar>yr - (py + w / 2 * sin \<theta>)\<bar> \<le> \<tau>
      \<and> zl = zr \<and> \<bar>zl - (pz + z)\<bar> \<le> \<bar>pz + z\<bar> / 2 ^ 53 + denormal_half
      \<and> \<bar>sqrt ((xr - xl)\<^sup>2 + (yr - yl)\<^sup>2 + (zr - zl)\<^sup>2) - \<bar>w\<bar>\<bar> \<le> 4 * \<tau>"
    if i: "i \<le> ?n" for i
  proof -
    obtain s where s: "?s i = Num s"
      "\<bar>s - L * real i / real ?n\<bar> \<le> L * real i / real ?n / 2 ^ 48 + 4 * real i * denormal_half"
      using sample_near [OF assms(7) n64 i L0 assms(6)]
      unfolding assms(9) assms(5) by blast
    obtain p v where pv: "getPoint64 g sp (Num s) = Inr p" "getNormalVector64 g sp (Num s) = Inr v"
      using spline_queries64_total [OF assms(1,2,3), of "Num s"] unfolding assms(4) by auto
    obtain px py pz where p: "p = \<lparr>x64 = Num px, y64 = Num py, z64 = Num pz\<rparr>"
      "\<bar>px\<bar> \<le> P" "\<bar>py\<bar> \<le> P" "\<bar>pz\<bar> \<le> P"
      using assms(13) i pv(1) s(1) by force
    obtain \<theta> where th: "std_atan2 g (y64 v) (x64 v) = Num \<theta>"
      using assms(14) i pv(2) s(1) by force
    obtain c where c: "std_cos g (Num \<theta>) = Num c" "\<bar>c - cos \<theta>\<bar> \<le> \<epsilon>"
      using assms(15) by blast
    obtain sn where sn: "std_sin g (Num \<theta>) = Num sn" "\<bar>sn - sin \<theta>\<bar> \<le> \<epsilon>"
      using assms(16) by blast
    have gp: "getPoint64 g sp (Num s) = Inr \<lparr>x64 = Num px, y64 = Num py, z64 = Num pz\<rparr>"
      using pv(1) p(1) by simp
    from bound_points64 [OF gp pv(2) th c sn assms(17) p(2,3,4) assms(12,10,11,18)]
    obtain xl yl zl xr yr zr where
      "left_bound_point64 g sp (Num w) (Num s) (Num z)
         = Inr \<lparr>x64 = Num xl, y64 = Num yl, z64 = Num zl\<rparr>"
      "right_bound_point64 g sp (Num w) (Num s) (Num z)
         = Inr \<lparr>x64 = Num xr, y64 = Num yr, z64 = Num zr\<rparr>"
      "\<bar>xl - (px - w / 2 * cos \<theta>)\<bar> \<le> \<tau>" "\<bar>yl - (py - w / 2 * sin \<theta>)\<bar> \<le> \<tau>"
      "\<bar>xr - (px + w / 2 * cos \<theta>)\<bar> \<le> \<tau>" "\<bar>yr - (py + w / 2 * sin \<theta>)\<bar> \<le> \<tau>"
      "zl = zr" "\<bar>zl - (pz + z)\<bar> \<le> \<bar>pz + z\<bar> / 2 ^ 53 + denormal_half"
      "\<bar>sqrt ((xr - xl)\<^sup>2 + (yr - yl)\<^sup>2 + (zr - zl)\<^sup>2) - \<bar>w\<bar>\<bar> \<le> 4 * \<tau>"
      by blast
    with s gp pv(2) th show ?thesis
      unfolding s(1) by blast
  qed
  have lt: "\<exists>p. ?lf i = Inr p" and rt: "\<exists>p. ?rf i = Inr p" if "i \<le> ?n" for i
    using each [OF that] by blast+
  have Lf: "getLeftBounds64 g sp (Num w) num_points (Num z) = Inr ?left"
    unfolding getLeftBounds64_def Let_def n assms(9) [symmetric]
    by (rule emplace_each_total) (use lt in auto)
  have Rf: "getRightBounds64 g sp (Num w) num_points (Num z) = Inr ?right"
    unfolding getRightBounds64_def Let_def n assms(9) [symmetric]
    by (rule emplace_each_total) (use rt in auto)
  have nth: "?left ! i = projr (?lf i)" "?right ! i = projr (?rf i)" if "i \<le> ?n" for i
  proof -
    have "i < length [0 ..< Suc ?n]" "[0 ..< Suc ?n] ! i = i"
      using that by (simp_all del: upt_Suc)
    then show "?left ! i = projr (?lf i)" "?right ! i = projr (?rf i)"
      by (simp_all del: upt_Suc)
  qed
  have len: "length ?left = ?n + 1" "length ?right = ?n + 1" by simp_all
  have all: "\<forall>i \<le> ?n. \<exists>s px py pz v \<theta> xl yl zl xr yr zr.
        ?s i = Num s
      \<and> \<bar>s - L * real i / real ?n\<bar> \<le> L * real i / real ?n / 2 ^ 48 + 4 * real i * denormal_half
      \<and> getPoint64 g sp (Num s) = Inr \<lparr>x64 = Num px, y64 = Num py, z64 = Num pz\<rparr>
      \<and> getNormalVector64 g sp (Num s) = Inr v
      \<and> std_atan2 g (y64 v) (x64 v) = Num \<theta>
      \<and> ?left ! i = \<lparr>x64 = Num xl, y64 = Num yl, z64 = Num zl\<rparr>
      \<and> ?right ! i = \<lparr>x64 = Num xr, y64 = Num yr, z64 = Num zr\<rparr>
      \<and> \<bar>xl - (px - w / 2 * cos \<theta>)\<bar> \<le> \<tau> \<and> \<bar>yl - (py - w / 2 * sin \<theta>)\<bar> \<le> \<tau>
      \<and> \<bar>xr - (px + w / 2 * cos \<theta>)\<bar> \<le> \<tau> \<and> \<bar>yr - (py + w / 2 * sin \<theta>)\<bar> \<le> \<tau>
      \<and> zl = zr \<and> \<bar>zl - (pz + z)\<bar> \<le> \<bar>pz + z\<bar> / 2 ^ 53 + denormal_half
      \<and> \<bar>sqrt ((xr - xl)\<^sup>2 + (yr - yl)\<^sup>2 + (zr - zl)\<^sup>2) - \<bar>w\<bar>\<bar> \<le> 4 * \<tau>"
  proof (intro allI impI)
    fix i assume i: "i \<le> ?n"
    from each [OF i] obtain s px py pz v \<theta> xl yl zl xr yr zr where e:
      "?s i = Num s"
      "\<bar>s - L * real i / real ?n\<bar> \<le> L * real i / real ?n / 2 ^ 48 + 4 * real i * denormal_half"
      "getPoint64 g sp (Num s) = Inr \<lparr>x64 = Num px, y64 = Num py, z64 = Num pz\<rparr>"
      "getNormalVector64 g sp (Num s) = Inr v"
      "std_atan2 g (y64 v) (x64 v) = Num \<theta>"
      "?lf i = Inr \<lparr>x64 = Num xl, y64 = Num yl, z64 = Num zl\<rparr>"
      "?rf i = Inr \<lparr>x64 = Num xr, y64 = Num yr, z64 = Num zr\<rparr>"
      "\<bar>xl - (px - w / 2 * cos \<theta>)\<bar> \<le> \<tau>" "\<bar>yl - (py - w / 2 * sin \<theta>)\<bar> \<le> \<tau>"
      "\<bar>xr - (px + w / 2 * cos \<theta>)\<bar> \<le> \<tau>" "\<bar>yr - (py + w / 2 * sin \<theta>)\<bar> \<le> \<tau>"
      "zl = zr" "\<bar>zl - (pz + z)\<bar> \<le> \<bar>pz + z\<bar> / 2 ^ 53 + denormal_half"
      "\<bar>sqrt ((xr - xl)\<^sup>2 + (yr - yl)\<^sup>2 + (zr - zl)\<^sup>2) - \<bar>w\<bar>\<bar> \<le> 4 * \<tau>"
      by blast
    have "?left ! i = \<lparr>x64 = Num xl, y64 = Num yl, z64 = Num zl\<rparr>"
      "?right ! i = \<lparr>x64 = Num xr, y64 = Num yr, z64 = Num zr\<rparr>"
      using nth [OF i] e(6,7) by simp_all
    with e show "\<exists>s px py pz v \<theta> xl yl zl xr yr zr.
        ?s i = Num s
      \<and> \<bar>s - L * real i / real ?n\<bar> \<le> L * real i / real ?n / 2 ^ 48 + 4 * real i * denormal_half
      \<and> getPoint64 g sp (Num s) = Inr \<lparr>x64 = Num px, y64 = Num py, z64 = Num pz\<rparr>
      \<and> getNormalVector64 g sp (Num s) = Inr v
      \<and> std_atan2 g (y64 v) (x64 v) = Num \<theta>
      \<and> ?left ! i = \<lparr>x64 = Num xl, y64 = Num yl, z64 = Num zl\<rparr>
      \<and> ?right ! i = \<lparr>x64 = Num xr, y64 = Num yr, z64 = Num zr\<rparr>
      \<and> \<bar>xl - (px - w / 2 * cos \<theta>)\<bar> \<le> \<tau> \<and> \<bar>yl - (py - w / 2 * sin \<theta>)\<bar> \<le> \<tau>
      \<and> \<bar>xr - (px + w / 2 * cos \<theta>)\<bar> \<le> \<tau> \<and> \<bar>yr - (py + w / 2 * sin \<theta>)\<bar> \<le> \<tau>
      \<and> zl = zr \<and> \<bar>zl - (pz + z)\<bar> \<le> \<bar>pz + z\<bar> / 2 ^ 53 + denormal_half
      \<and> \<bar>sqrt ((xr - xl)\<^sup>2 + (yr - yl)\<^sup>2 + (zr - zl)\<^sup>2) - \<bar>w\<bar>\<bar> \<le> 4 * \<tau>"
      by blast
  qed
  show ?thesis
    using Lf Rf len all by (intro exI [of _ ?left] exI [of _ ?right] conjI)
qed

text \<open>The theorem at a concrete spline.\<close>

theorem bounds_sampled_within_tolerance_witness:
  "length (control_points64 unit_spline) = 3
   \<and> getLength64 unit_spline = Num 2
   \<and> unat (2 :: 64 word) = 2
   \<and> (\<exists>left right.
         getLeftBounds64 axis_geometry unit_spline (Num 2) 2 (Num 0) = Inr left
       \<and> getRightBounds64 axis_geometry unit_spline (Num 2) 2 (Num 0) = Inr right
       \<and> length left = 3 \<and> length right = 3
       \<and> (\<exists>xl yl zl xr yr zr.
             left ! 1 = \<lparr>x64 = Num xl, y64 = Num yl, z64 = Num zl\<rparr>
           \<and> right ! 1 = \<lparr>x64 = Num xr, y64 = Num yr, z64 = Num zr\<rparr>
           \<and> \<bar>sqrt ((xr - xl)\<^sup>2 + (yr - yl)\<^sup>2 + (zr - zl)\<^sup>2) - 2\<bar>
               \<le> 4 * (2 * (1 / 2 ^ 52) / 2 + (4 + 4 * 2) / 2 ^ 52 + 6 * denormal_half)))"
proof -
  let ?step = "ddiv (getLength64 unit_spline) (double_of_nat (unat (2 :: 64 word)))"
  have l: "\<forall>c \<in> set [(0 :: real, 1 :: real), (1, 1)].
             dle (Num 0) (HermiteCurve_getLength64 axis_geometry c)"
    by (simp add: axis_geometry_def dle_def)
  have one: "1 \<le> pow2 1000" by (rule pow2_1000_ge_one)
  have b: "(2 :: real) \<le> pow2 1000" "\<bar>2 :: real\<bar> \<le> pow2 1000" "\<bar>0 :: real\<bar> \<le> pow2 1000"
    "(4 :: real) \<le> pow2 1000"
    using pow2_1000(2) by simp_all
  have n: "1 \<le> unat (2 :: 64 word)" "unat (2 :: 64 word) < 2 ^ 64 - 1" by simp_all
  have pts: "\<forall>i \<le> unat (2 :: 64 word). \<forall>p.
           getPoint64 axis_geometry unit_spline (dmul ?step (double_of_nat i)) = Inr p \<longrightarrow>
           (\<exists>px py pz. p = \<lparr>x64 = Num px, y64 = Num py, z64 = Num pz\<rparr>
                     \<and> \<bar>px\<bar> \<le> 4 \<and> \<bar>py\<bar> \<le> 4 \<and> \<bar>pz\<bar> \<le> 4)"
  proof (intro allI impI)
    fix i p
    assume i: "i \<le> unat (2 :: 64 word)"
      and p: "getPoint64 axis_geometry unit_spline (dmul ?step (double_of_nat i)) = Inr p"
    have i2: "i \<le> 2" using i by simp
    then have "i = 0 \<or> i = 1 \<or> i = 2" by auto
    then show "\<exists>px py pz. p = \<lparr>x64 = Num px, y64 = Num py, z64 = Num pz\<rparr>
                     \<and> \<bar>px\<bar> \<le> 4 \<and> \<bar>py\<bar> \<le> 4 \<and> \<bar>pz\<bar> \<le> 4"
      using p unfolding unit_spline_samples [OF i2]
      by (auto simp add: unit_spline_sample_points pt64_def)
  qed
  have ang: "\<forall>i \<le> unat (2 :: 64 word). \<forall>v.
           getNormalVector64 axis_geometry unit_spline (dmul ?step (double_of_nat i)) = Inr v
             \<longrightarrow> (\<exists>\<theta>. std_atan2 axis_geometry (y64 v) (x64 v) = Num \<theta>)"
    using axis_normal_angle by blast
  have cs: "\<forall>\<theta>. \<exists>c. std_cos axis_geometry (Num \<theta>) = Num c \<and> \<bar>c - cos \<theta>\<bar> \<le> 1 / 2 ^ 52"
    "\<forall>\<theta>. \<exists>s. std_sin axis_geometry (Num \<theta>) = Num s \<and> \<bar>s - sin \<theta>\<bar> \<le> 1 / 2 ^ 52"
    using rounded_cos_sin_near by blast+
  have e: "(1 :: real) / 2 ^ 52 \<le> 1" by simp
  note th = bounds_sampled_within_tolerance
         [where g = axis_geometry and cps = "[pt64 0 0 0, pt64 1 0 0, pt64 2 0 0]"
            and cs = "[(0, 1), (1, 1)]" and sp = unit_spline and L = 2 and num_points = 2
            and step_size = ?step and w = 2 and z = 0 and P = 4 and \<epsilon> = "1 / 2 ^ 52"
            and \<tau> = "\<bar>2\<bar> * (1 / 2 ^ 52) / 2 + (4 + 4 * \<bar>2\<bar>) / 2 ^ 52 + 6 * denormal_half",
          OF _ _ l unit_spline_def unit_spline_length b(1) n refl b(2,3,4) pts ang cs e refl]
  have "3 \<le> length [pt64 0 0 0, pt64 1 0 0, pt64 2 0 0]"
    "length [(0 :: real, 1 :: real), (1, 1)] = length [pt64 0 0 0, pt64 1 0 0, pt64 2 0 0] - 1"
    by simp_all
  from th [OF this] obtain left right where lr:
    "getLeftBounds64 axis_geometry unit_spline (Num 2) 2 (Num 0) = Inr left"
    "getRightBounds64 axis_geometry unit_spline (Num 2) 2 (Num 0) = Inr right"
    "length left = unat (2 :: 64 word) + 1" "length right = unat (2 :: 64 word) + 1"
    and rest: "\<And>i. i \<le> unat (2 :: 64 word) \<Longrightarrow> \<exists>s px py pz v \<theta> xl yl zl xr yr zr.
         dmul ?step (double_of_nat i) = Num s
       \<and> \<bar>s - 2 * real i / real (unat (2 :: 64 word))\<bar>
           \<le> 2 * real i / real (unat (2 :: 64 word)) / 2 ^ 48 + 4 * real i * denormal_half
       \<and> getPoint64 axis_geometry unit_spline (Num s)
           = Inr \<lparr>x64 = Num px, y64 = Num py, z64 = Num pz\<rparr>
       \<and> getNormalVector64 axis_geometry unit_spline (Num s) = Inr v
       \<and> std_atan2 axis_geometry (y64 v) (x64 v) = Num \<theta>
       \<and> left ! i = \<lparr>x64 = Num xl, y64 = Num yl, z64 = Num zl\<rparr>
       \<and> right ! i = \<lparr>x64 = Num xr, y64 = Num yr, z64 = Num zr\<rparr>
       \<and> \<bar>xl - (px - 2 / 2 * cos \<theta>)\<bar>
           \<le> \<bar>2\<bar> * (1 / 2 ^ 52) / 2 + (4 + 4 * \<bar>2\<bar>) / 2 ^ 52 + 6 * denormal_half
       \<and> \<bar>yl - (py - 2 / 2 * sin \<theta>)\<bar>
           \<le> \<bar>2\<bar> * (1 / 2 ^ 52) / 2 + (4 + 4 * \<bar>2\<bar>) / 2 ^ 52 + 6 * denormal_half
       \<and> \<bar>xr - (px + 2 / 2 * cos \<theta>)\<bar>
           \<le> \<bar>2\<bar> * (1 / 2 ^ 52) / 2 + (4 + 4 * \<bar>2\<bar>) / 2 ^ 52 + 6 * denormal_half
       \<and> \<bar>yr - (py + 2 / 2 * sin \<theta>)\<bar>
           \<le> \<bar>2\<bar> * (1 / 2 ^ 52) / 2 + (4 + 4 * \<bar>2\<bar>) / 2 ^ 52 + 6 * denormal_half
       \<and> zl = zr \<and> \<bar>zl - (pz + 0)\<bar> \<le> \<bar>pz + 0\<bar> / 2 ^ 53 + denormal_half
       \<and> \<bar>sqrt ((xr - xl)\<^sup>2 + (yr - yl)\<^sup>2 + (zr - zl)\<^sup>2) - \<bar>2\<bar>\<bar>
           \<le> 4 * (\<bar>2\<bar> * (1 / 2 ^ 52) / 2 + (4 + 4 * \<bar>2\<bar>) / 2 ^ 52 + 6 * denormal_half)"
    by blast
  have "(1 :: nat) \<le> unat (2 :: 64 word)" by simp
  from rest [OF this] obtain xl yl zl xr yr zr where v:
    "left ! 1 = \<lparr>x64 = Num xl, y64 = Num yl, z64 = Num zl\<rparr>"
    "right ! 1 = \<lparr>x64 = Num xr, y64 = Num yr, z64 = Num zr\<rparr>"
    "\<bar>sqrt ((xr - xl)\<^sup>2 + (yr - yl)\<^sup>2 + (zr - zl)\<^sup>2) - \<bar>2\<bar>\<bar>
           \<le> 4 * (\<bar>2\<bar> * (1 / 2 ^ 52) / 2 + (4 + 4 * \<bar>2\<bar>) / 2 ^ 52 + 6 * denormal_half)"
    by blast
  have a2: "\<bar>2 :: real\<bar> = 2" by simp
  have "\<bar>sqrt ((xr - xl)\<^sup>2 + (yr - yl)\<^sup>2 + (zr - zl)\<^sup>2) - 2\<bar>
           \<le> 4 * (2 * (1 / 2 ^ 52) / 2 + (4 + 4 * 2) / 2 ^ 52 + 6 * denormal_half)"
    using v(3) unfolding a2 .
  with v(1,2) have d: "\<exists>xl yl zl xr yr zr.
         left ! 1 = \<lparr>x64 = Num xl, y64 = Num yl, z64 = Num zl\<rparr>
       \<and> right ! 1 = \<lparr>x64 = Num xr, y64 = Num yr, z64 = Num zr\<rparr>
       \<and> \<bar>sqrt ((xr - xl)\<^sup>2 + (yr - yl)\<^sup>2 + (zr - zl)\<^sup>2) - 2\<bar>
           \<le> 4 * (2 * (1 / 2 ^ 52) / 2 + (4 + 4 * 2) / 2 ^ 52 + 6 * denormal_half)"
    by blast
  have len: "length left = 3" "length right = 3" using lr(3,4) by simp_all
  have c3: "length (control_points64 unit_spline) = 3"
    by (simp add: unit_spline_fields(1))
  have u: "unat (2 :: 64 word) = 2" by simp
  from c3 unit_spline_length u lr(1,2) len d show ?thesis by blast
qed

text \<open>
  Claim C8. The constructor fails on the empty list of control points, with the semantic
  error of the source; on a list that is not empty it never fails with a semantic error; and
  for one or two control points it returns a spline without Hermite segments.
\<close>

theorem construction_fails_only_when_empty:
  "CatmullRomSpline g uninit [] =
     Inl (SemanticError ''Control points are empty. We cannot determine the shape of the curve.'')
   \<and> (cps \<noteq> [] \<longrightarrow> (\<forall>msg. CatmullRomSpline g uninit cps \<noteq> Inl (SemanticError msg)))
   \<and> (length cps = 1 \<or> length cps = 2 \<longrightarrow>
        (\<exists>sp. CatmullRomSpline g uninit cps = Inr sp \<and> control_points sp = cps
              \<and> curves sp = []))"
proof (intro conjI impI allI)
  show "CatmullRomSpline g uninit [] =
     Inl (SemanticError ''Control points are empty. We cannot determine the shape of the curve.'')"
    by (simp add: CatmullRomSpline_def Let_def)
next
  fix msg assume "cps \<noteq> []"
  then show "CatmullRomSpline g uninit cps \<noteq> Inl (SemanticError msg)"
    using checkConnection_not_semantic
    by (auto simp: CatmullRomSpline_def Let_def split: sum.splits)
next
  assume "length cps = 1 \<or> length cps = 2"
  then show "\<exists>sp. CatmullRomSpline g uninit cps = Inr sp \<and> control_points sp = cps \<and> curves sp = []"
    using CatmullRomSpline_small [of cps g uninit] by simp
qed

text \<open>The theorem at a concrete spline.\<close>

theorem construction_fails_only_when_empty_witness:
  "line_points \<noteq> [] \<and> length line_points = 2
   \<and> CatmullRomSpline chord_geometry 0 [] =
       Inl (SemanticError ''Control points are empty. We cannot determine the shape of the curve.'')
   \<and> CatmullRomSpline chord_geometry 0 line_points \<noteq> Inl (SemanticError '''')
   \<and> (\<exists>sp. CatmullRomSpline chord_geometry 0 line_points = Inr sp
           \<and> control_points sp = line_points \<and> curves sp = [])"
proof -
  have "line_points \<noteq> []" "length line_points = 2"
    by (simp_all add: line_points_def)
  with construction_fails_only_when_empty [of chord_geometry 0 line_points]
  show ?thesis by blast
qed

text \<open>
  Claim C9, as stated: the failure branch of \<^verbatim>\<open>getCurveIndexAndS\<close> is unreachable for every
  input \<open>s\<close>. It is reached for NaN, for which each of the four comparisons is false. The
  source itself makes this input: with \<open>num_points = 0\<close> the bounds divide the length by 0 and
  multiply the infinity by 0.
\<close>

theorem curve_index_failure_NaN_counterexample:
  "length (control_points64 unit_spline) = 3
   \<and> length (curves64 unit_spline) = 2
   \<and> length_list64 unit_spline = [Num 1, Num 1]
   \<and> total_length64 unit_spline = Num 2
   \<and> getCurveIndexAndS64 axis_geometry unit_spline NaN
       = Inl (SimulationError ''failed to calculate curve index'')
   \<and> ddiv (getLength64 unit_spline) (double_of_nat (unat (0 :: 64 word))) = PInf
   \<and> dmul PInf (double_of_nat 0) = NaN
   \<and> getLeftBounds64 axis_geometry unit_spline (Num 2) 0 (Num 0)
       = Inl (SimulationError ''failed to calculate curve index'')"
proof -
  have nan: "getCurveIndexAndS64 axis_geometry unit_spline NaN
       = Inl (SimulationError ''failed to calculate curve index'')"
    by (simp add: getCurveIndexAndS64_def dge_def dle_def unit_spline_fields(2,3) Let_def)
  have z: "double_of_nat 0 = Num 0" "unat (0 :: 64 word) = 0"
    by (simp_all add: double_of_nat_def round_double_def)
  have step: "ddiv (getLength64 unit_spline) (double_of_nat (unat (0 :: 64 word))) = PInf"
    by (simp add: getLength64_def unit_spline_total z)
  have s0: "dmul PInf (double_of_nat 0) = NaN"
    by (simp add: z)
  have "getLeftBounds64 axis_geometry unit_spline (Num 2) 0 (Num 0)
       = Inl (SimulationError ''failed to calculate curve index'')"
    unfolding getLeftBounds64_def Let_def step
    by (simp add: left_bound_point64_def getNormalVector64_def s0 nan)
  with nan step s0 show ?thesis
    by (simp add: unit_spline_fields(1-3) unit_spline_total)
qed

text \<open>
  Claim C9, amended. For a spline of \<open>n \<ge> 3\<close> control points with \<open>n - 1\<close> segments, as many
  lengths, none of them negative (nor NaN), and a total length that is their sum from the
  left, \<^verbatim>\<open>getCurveIndexAndS\<close> never reaches its \<^verbatim>\<open>THROW_SIMULATION_ERROR\<close> for an \<open>s\<close> that is
  not NaN, infinite or not: it returns an index below the number of segments, and the scan
  finds a segment whenever \<open>0 \<le> s < total\<close>.
\<close>

theorem curve_index_failure_needs_NaN:
  assumes "3 \<le> length (control_points64 sp)"
    and "length (curves64 sp) = length (control_points64 sp) - 1"
    and "length (length_list64 sp) = length (curves64 sp)"
    and "\<forall>l \<in> set (length_list64 sp). dle (Num 0) l"
    and "total_length64 sp = foldl (\<lambda>total len. dadd total len) (Num 0) (length_list64 sp)"
    and "s \<noteq> NaN"
  shows "(\<forall>msg. getCurveIndexAndS64 g sp s \<noteq> Inl (SimulationError msg))
       \<and> (\<exists>i ls. i < length (curves64 sp) \<and> getCurveIndexAndS64 g sp s = Inr (i, ls))
       \<and> (dle (Num 0) s \<and> dlt s (total_length64 sp) \<longrightarrow>
            (\<exists>i ls. i < length (curves64 sp)
                   \<and> getCurveIndexAndS64_loop sp s 0 (Num 0) = Inr (i, ls)))"
proof -
  have ne: "curves64 sp \<noteq> []" using assms(1,2) by auto
  from getCurveIndexAndS64_total [OF ne assms(3,4,5,6), of g]
  obtain i ls where r: "i < length (curves64 sp)" "getCurveIndexAndS64 g sp s = Inr (i, ls)"
    by blast
  moreover have "\<exists>i ls. i < length (curves64 sp)
      \<and> getCurveIndexAndS64_loop sp s 0 (Num 0) = Inr (i, ls)"
    if "dle (Num 0) s" "dlt s (total_length64 sp)"
  proof -
    have "\<not> dlt s (Num 0)" "\<not> dge s (total_length64 sp)"
      using that by (auto simp: dle_def dge_def)
    with r show ?thesis by (auto simp: getCurveIndexAndS64_def)
  qed
  ultimately show ?thesis by auto
qed

text \<open>The theorem at a concrete spline.\<close>

theorem curve_index_failure_needs_NaN_witness:
  "3 \<le> length (control_points64 unit_spline)
   \<and> length (curves64 unit_spline) = length (control_points64 unit_spline) - 1
   \<and> length (length_list64 unit_spline) = length (curves64 unit_spline)
   \<and> dle (Num 0) (length_list64 unit_spline ! 0)
   \<and> dle (Num 0) (length_list64 unit_spline ! 1)
   \<and> total_length64 unit_spline
       = foldl (\<lambda>total len. dadd total len) (Num 0) (length_list64 unit_spline)
   \<and> Num (3/2) \<noteq> NaN
   \<and> getCurveIndexAndS64 axis_geometry unit_spline (Num (3/2))
       \<noteq> Inl (SimulationError ''failed to calculate curve index'')
   \<and> (\<exists>i ls. i < length (curves64 unit_spline)
          \<and> getCurveIndexAndS64 axis_geometry unit_spline (Num (3/2)) = Inr (i, ls))
   \<and> getCurveIndexAndS64 axis_geometry unit_spline PInf \<noteq> Inl (SimulationError '''')"
proof -
  have h: "3 \<le> length (control_points64 unit_spline)"
    "length (curves64 unit_spline) = length (control_points64 unit_spline) - 1"
    "length (length_list64 unit_spline) = length (curves64 unit_spline)"
    "\<forall>l \<in> set (length_list64 unit_spline). dle (Num 0) l"
    "total_length64 unit_spline
       = foldl (\<lambda>total len. dadd total len) (Num 0) (length_list64 unit_spline)"
    by (simp_all add: unit_spline_fields dle_def)
  have n: "Num (3/2) \<noteq> NaN" "PInf \<noteq> NaN" by simp_all
  have l: "dle (Num 0) (length_list64 unit_spline ! 0)"
    "dle (Num 0) (length_list64 unit_spline ! 1)"
    by (simp_all add: unit_spline_fields dle_def)
  from curve_index_failure_needs_NaN [OF h n(1), of axis_geometry]
    curve_index_failure_needs_NaN [OF h n(2), of axis_geometry] h(1,2,3,5) l
  show ?thesis by simp
qed

text \<open>
  Claim C10. The overload of \<^verbatim>\<open>getCollisionPointIn2D\<close> for two points scans the Hermite
  segments and nothing else: a spline of fewer than three control points has none, and the
  overload returns no value, whatever the points and the direction. On the line spline
  below it returns no value against a segment that crosses the line, where the polygon
  overload returns one.
\<close>

theorem two_point_collision_needs_curves:
  assumes "CatmullRomSpline g uninit cps = Inr sp" and "length cps < 3"
  shows "curves sp = [] \<and>
         getCollisionPointIn2D_points g sp point0 point1 search_backward = Inr None"
proof -
  have "cps \<noteq> []"
    using assms(1) by (auto simp: CatmullRomSpline_def Let_def)
  then have "0 < length cps" by simp
  then have "length cps = 1 \<or> length cps = 2"
    using assms(2) by arith
  from CatmullRomSpline_small [OF this, of g uninit] assms(1)
  have "curves sp = []" by auto
  then show ?thesis
    by (simp add: getCollisionPointIn2D_points_def collision_scan_no_curves)
qed

text \<open>The theorem at a concrete spline.\<close>

theorem two_point_collision_needs_curves_witness:
  "CatmullRomSpline chord_geometry 0 line_points = Inr line_spline
   \<and> length line_points < 3
   \<and> curves line_spline = []
   \<and> getCollisionPointIn2D_points chord_geometry line_spline (pt (1/2) (-1) 0) (pt (1/2) 1 0) False
       = Inr None
   \<and> getCollisionPointIn2D_polygon chord_geometry line_spline box False = Inr (Some (1/2))"
proof -
  have n: "length line_points < 3" by (simp add: line_points_length)
  have "getCollisionPointIn2D_polygon chord_geometry line_spline box False = Inr (Some (1/2))"
    by (simp add: getCollisionPointIn2D_polygon_def get_collision_point_2d_with_line_def
        chord_geometry_def line_points_def line_spline_def pt_def neighbour_segments_def
        box_def segment_intersection_def min_element_def Let_def)
  with two_point_collision_needs_curves [OF line_spline_built n] line_spline_built n
  show ?thesis by simp
qed

end
